theory Spec2Isabelle
  imports Main
begin

section \<open>JavaScript values and thrown errors\<close>

text \<open>
  Option values, defaults and presets are arbitrary JavaScript values. Strings are byte
  strings here; \<open>===\<close> on arrays is reference identity in the source and structural
  equality in this model.
\<close>

datatype jsval =
    JUndefined
  | JNull
  | JBool bool
  | JNum int
  | JStr string
  | JArr "jsval list"

text \<open>
  Everything the source throws, and every call of \<open>Command.error\<close> (which writes the
  message and then leaves through \<open>#exit\<close>, either by the exit callback throwing the
  \<open>CommanderError\<close> or by \<open>process.exit\<close>), is a value: \<open>CommanderError exitCode code message\<close>,
  a plain \<open>new Error(message)\<close>, or the engine's \<open>TypeError\<close>.
\<close>

datatype error =
    CommanderError int string string
  | JsError string
  | TypeError string

type_synonym parseArgFunc = "jsval \<Rightarrow> jsval \<Rightarrow> error + jsval"

definition quote :: string where
  "quote = [CHR 0x27]"

section \<open>Argument (lib/argument.ts)\<close>

record argument =
  arg_name :: string
  arg_required :: bool
  arg_variadic :: bool
  arg_defaultValue :: jsval
  arg_parseArg :: "parseArgFunc option"

text \<open>
  The constructor: \<open><name>\<close> is required, \<open>[name]\<close> optional, a bare name required; a
  name longer than three characters that ends in \<open>...\<close> is variadic.
\<close>

definition newArgument :: "string \<Rightarrow> argument" where
  "newArgument nm =
     (let (req, n) =
            (case nm of
               c # cs \<Rightarrow>
                 if c = CHR ''<'' then (True, butlast cs)
                 else if c = CHR ''['' then (False, butlast cs)
                 else (True, nm)
             | [] \<Rightarrow> (True, nm));
          isVariadic = (length n > 3 \<and> drop (length n - 3) n = ''...'')
      in \<lparr>arg_name = (if isVariadic then take (length n - 3) n else n),
          arg_required = req, arg_variadic = isVariadic,
          arg_defaultValue = JUndefined, arg_parseArg = None\<rparr>)"

text \<open>
  \<open>Command.addArgument\<close>: \<open>registeredArguments.slice(-1)[0]\<close> is the last registered
  argument, or undefined when there is none.
\<close>

definition previousArgument :: "argument list \<Rightarrow> argument option" where
  "previousArgument regs = (case rev regs of [] \<Rightarrow> None | a # _ \<Rightarrow> Some a)"

section \<open>Option (class Option)\<close>

record opt =
  flags :: string
  required :: bool
  optional :: bool
  variadic :: bool
  mandatory :: bool
  negate :: bool
  short :: "string option"
  long :: "string option"
  defaultValue :: jsval
  presetArg :: jsval
  envVar :: "string option"
  parseArg :: "parseArgFunc option"
  conflictsWith :: "string list"
  implied :: "(string \<times> jsval) list option"

text \<open>\<open>s.replace(/^p/, "")\<close> for a literal prefix \<open>p\<close>.\<close>

definition stripPrefix :: "string \<Rightarrow> string \<Rightarrow> string" where
  "stripPrefix p s = (if take (length p) s = p then drop (length p) s else s)"

text \<open>A string field is truthy when it is defined and not empty.\<close>

definition truthy :: "string option \<Rightarrow> bool" where
  "truthy s = (case s of None \<Rightarrow> False | Some x \<Rightarrow> x \<noteq> [])"

definition name :: "opt \<Rightarrow> error + string" where
  "name option =
     (if truthy (long option) then
        (case long option of Some l \<Rightarrow> Inr (stripPrefix ''--'' l)
         | None \<Rightarrow> Inl (TypeError ''long is undefined''))
      else
        (case short option of Some s \<Rightarrow> Inr (stripPrefix ''-'' s)
         | None \<Rightarrow> Inl (TypeError ''Cannot read properties of undefined (reading replace)'')))"

fun splitOn :: "char \<Rightarrow> string \<Rightarrow> string list" where
  "splitOn c [] = [[]]"
| "splitOn c (x # xs) =
     (if x = c then [] # splitOn c xs
      else (case splitOn c xs of w # ws \<Rightarrow> (x # w) # ws | [] \<Rightarrow> [[x]]))"

text \<open>\<open>toUpperCase\<close> on one character, for the ASCII letters.\<close>

definition toUpperCase :: "char \<Rightarrow> char" where
  "toUpperCase c =
     (let n = (of_char c :: nat) in if 97 \<le> n \<and> n \<le> 122 then char_of (n - 32) else c)"

text \<open>
  \<open>camelcase\<close>: \<open>str.split("-").reduce((str, word) => str + word[0].toUpperCase() + word.slice(1))\<close>.
  On an empty segment \<open>word[0]\<close> is undefined and \<open>toUpperCase\<close> throws.
\<close>

fun camelcaseReduce :: "string \<Rightarrow> string list \<Rightarrow> error + string" where
  "camelcaseReduce str [] = Inr str"
| "camelcaseReduce str (word # ws) =
     (case word of
        [] \<Rightarrow> Inl (TypeError ''Cannot read properties of undefined (reading toUpperCase)'')
      | w0 # wrest \<Rightarrow> camelcaseReduce (str @ toUpperCase w0 # wrest) ws)"

definition camelcase :: "string \<Rightarrow> error + string" where
  "camelcase str =
     (case splitOn CHR ''-'' str of
        [] \<Rightarrow> Inl (TypeError ''Reduce of empty array with no initial value'')
      | w # ws \<Rightarrow> camelcaseReduce w ws)"

definition attributeName :: "opt \<Rightarrow> error + string" where
  "attributeName option =
     (case name option of Inl e \<Rightarrow> Inl e | Inr n \<Rightarrow> camelcase (stripPrefix ''no-'' n))"

text \<open>\<open>Option.is\<close>.\<close>

definition optionIs :: "opt \<Rightarrow> string \<Rightarrow> bool" where
  "optionIs option arg = (short option = Some arg \<or> long option = Some arg)"

definition isBoolean :: "opt \<Rightarrow> bool" where
  "isBoolean option = (\<not> required option \<and> \<not> optional option \<and> \<not> negate option)"

text \<open>
  \<open>Option._concatValue\<close> (the handler in \<open>addOption\<close> calls it under the name \<open>#concatValue\<close>).
  \<open>Array.prototype.concat\<close> spreads an array argument.
\<close>

definition concatValue :: "opt \<Rightarrow> jsval \<Rightarrow> jsval \<Rightarrow> jsval" where
  "concatValue option val previous =
     (case previous of
        JArr xs \<Rightarrow>
          if previous = defaultValue option then JArr [val]
          else (case val of JArr ys \<Rightarrow> JArr (xs @ ys) | _ \<Rightarrow> JArr (xs @ [val]))
      | _ \<Rightarrow> JArr [val])"

subsection \<open>The constructor of \<open>Option\<close>\<close>

text \<open>\<open>flags.split(/[ |,]+/)\<close>\<close>

definition isFlagSeparator :: "char \<Rightarrow> bool" where
  "isFlagSeparator c = (c = CHR '' '' \<or> c = CHR ''|'' \<or> c = CHR '','')"

function splitFlags :: "string \<Rightarrow> string list" where
  "splitFlags [] = [[]]"
| "splitFlags (c # cs) =
     (if isFlagSeparator c then [] # splitFlags (dropWhile isFlagSeparator cs)
      else (case splitFlags cs of w # ws \<Rightarrow> (c # w) # ws | [] \<Rightarrow> [[c]]))"
  by pat_completeness auto
termination
  by (relation "measure length") (auto simp: le_imp_less_Suc length_dropWhile_le)

text \<open>\<open>\w\<close>\<close>

definition isWordChar :: "char \<Rightarrow> bool" where
  "isWordChar c =
     (let n = (of_char c :: nat)
      in (48 \<le> n \<and> n \<le> 57) \<or> (65 \<le> n \<and> n \<le> 90) \<or> (97 \<le> n \<and> n \<le> 122) \<or> n = 95)"

text \<open>\<open>/\w\.\.\.[>\]]$/.test(flags)\<close>\<close>

definition variadicFlags :: "string \<Rightarrow> bool" where
  "variadicFlags fl =
     (case rev fl of
        e # d3 # d2 # d1 # w # _ \<Rightarrow>
          (e = CHR ''>'' \<or> e = CHR '']'') \<and> d3 = CHR ''.'' \<and> d2 = CHR ''.'' \<and> d1 = CHR ''.''
          \<and> isWordChar w
      | _ \<Rightarrow> False)"

text \<open>\<open>splitOptionFlags\<close>: the short and the long flag.\<close>

definition splitOptionFlags :: "string \<Rightarrow> string option \<times> string option" where
  "splitOptionFlags fl =
     (let flagParts = splitFlags fl;
          takeShort =
            (case flagParts of
               _ # second # _ \<Rightarrow>
                 (case second of c # _ \<Rightarrow> \<not> (c = CHR ''['' \<or> c = CHR ''<'') | [] \<Rightarrow> True)
             | _ \<Rightarrow> False);
          shortFlag = (if takeShort then (case flagParts of p # _ \<Rightarrow> Some p | [] \<Rightarrow> None) else None);
          remaining = (if takeShort then tl flagParts else flagParts);
          longFlag = (case remaining of p # _ \<Rightarrow> Some p | [] \<Rightarrow> None)
      in if \<not> truthy shortFlag
            \<and> (case longFlag of Some [d, c] \<Rightarrow> d = CHR ''-'' \<and> c \<noteq> CHR ''-'' | _ \<Rightarrow> False)
         then (longFlag, None)
         else (shortFlag, longFlag))"

definition newOption :: "string \<Rightarrow> opt" where
  "newOption fl =
     (case splitOptionFlags fl of
        (shortFlag, longFlag) \<Rightarrow>
          \<lparr>flags = fl,
           required = (CHR ''<'' \<in> set fl),
           optional = (CHR ''['' \<in> set fl),
           variadic = variadicFlags fl,
           mandatory = False,
           negate = (truthy longFlag
                     \<and> (case longFlag of Some l \<Rightarrow> take 5 l = ''--no-'' | None \<Rightarrow> False)),
           short = shortFlag,
           long = longFlag,
           defaultValue = JUndefined,
           presetArg = JUndefined,
           envVar = None,
           parseArg = None,
           conflictsWith = [],
           implied = None\<rparr>)"

section \<open>Rendering values in messages\<close>

definition digitChar :: "nat \<Rightarrow> char" where
  "digitChar d = ''0123456789'' ! (d mod 10)"

fun showNat :: "nat \<Rightarrow> string" where
  "showNat n = (if n < 10 then [digitChar n] else showNat (n div 10) @ [digitChar (n mod 10)])"

declare showNat.simps [simp del]

definition showInt :: "int \<Rightarrow> string" where
  "showInt i = (if i < 0 then CHR ''-'' # showNat (nat (- i)) else showNat (nat i))"

fun joinWith :: "string \<Rightarrow> string list \<Rightarrow> string" where
  "joinWith sep [] = []"
| "joinWith sep [x] = x"
| "joinWith sep (x # y # ys) = x @ sep @ joinWith sep (y # ys)"

text \<open>\<open>String(v)\<close>, as a template literal converts a value.\<close>

fun jsToString :: "jsval \<Rightarrow> string" where
  "jsToString JUndefined = ''undefined''"
| "jsToString JNull = ''null''"
| "jsToString (JBool b) = (if b then ''true'' else ''false'')"
| "jsToString (JNum i) = showInt i"
| "jsToString (JStr s) = s"
| "jsToString (JArr xs) =
     joinWith '','' (map (\<lambda>x. if x = JUndefined \<or> x = JNull then [] else jsToString x) xs)"

definition strOrUndefined :: "string option \<Rightarrow> string" where
  "strOrUndefined s = (case s of None \<Rightarrow> ''undefined'' | Some x \<Rightarrow> x)"

section \<open>Command (class Command)\<close>

type_synonym cid = nat

text \<open>
  A slot of \<open>#lifeCycleHooks\<close>: the three event keys start as \<open>null\<close>, \<open>hook()\<close> replaces
  the slot by an array of callbacks, every other key is undefined. A callback is known
  by its name.
\<close>

datatype hooks = HooksUndefined | HooksNull | HooksList "string list"

text \<open>
  The listeners that \<open>addOption\<close> registers on the command's event emitter: the closure
  holds the option, the attribute name computed at registration, and the value source.
\<close>

datatype listener = OptionListener opt string string

text \<open>
  The fields of a command that the modelled methods read or write. Commands are objects
  with identity: a command refers to its parent and its subcommands by reference (\<open>cid\<close>),
  and the objects live in a store. Of the lazily created help command only the name is
  kept; of the action handler and the executable handler, whether there is one. With
  \<open>storeOptionsAsProperties\<close> the option values are properties of the command object
  itself: \<open>properties\<close> holds those that are not members of the class.
\<close>

record command =
  cmd_name :: string
  aliases :: "string list"
  commands :: "cid list"
  options :: "opt list"
  registeredArguments :: "argument list"
  parent :: "cid option"
  cmd_args :: "string list"
  combineFlagAndOptionalValue :: bool
  enablePositionalOptions :: bool
  passThroughOptions :: bool
  storeOptionsAsProperties :: bool
  optionValues :: "string \<Rightarrow> jsval"
  properties :: "string \<Rightarrow> jsval"
  optionValueSources :: "string \<Rightarrow> string option"
  actionHandler :: bool
  executableHandler :: bool
  defaultCommandName :: "string option"
  lifeCycleHooks :: "string \<Rightarrow> hooks"
  addImplicitHelpCommand :: "bool option"
  helpCommand :: "string option"
  listeners :: "(string \<times> listener) list"

type_synonym store = "cid \<Rightarrow> command"

definition newCommand :: "string \<Rightarrow> command" where
  "newCommand nm =
     \<lparr>cmd_name = nm, aliases = [], commands = [], options = [], registeredArguments = [],
      parent = None, cmd_args = [], combineFlagAndOptionalValue = True,
      enablePositionalOptions = False, passThroughOptions = False,
      storeOptionsAsProperties = False, optionValues = (\<lambda>_. JUndefined),
      properties = (\<lambda>_. JUndefined), optionValueSources = (\<lambda>_. None),
      actionHandler = False, executableHandler = False, defaultCommandName = None,
      lifeCycleHooks =
        (\<lambda>event. if event = ''postAction'' \<or> event = ''preAction'' \<or> event = ''preSubcommand''
                 then HooksNull else HooksUndefined),
      addImplicitHelpCommand = None, helpCommand = None, listeners = []\<rparr>"

definition addArgument :: "argument \<Rightarrow> command \<Rightarrow> error + command" where
  "addArgument arg this =
     (case (case previousArgument (registeredArguments this) of
              Some prev \<Rightarrow> if arg_variadic prev then Some prev else None
            | None \<Rightarrow> None) of
        Some prev \<Rightarrow>
          Inl (JsError (''only the last argument can be variadic '' @ quote @ arg_name prev @ quote))
      | None \<Rightarrow>
          if arg_required arg \<and> arg_defaultValue arg \<noteq> JUndefined
             \<and> Option.is_none (arg_parseArg arg) then
            Inl (JsError (''a default value for a required argument is never used: ''
                          @ quote @ arg_name arg @ quote))
          else Inr (this\<lparr>registeredArguments := registeredArguments this @ [arg]\<rparr>))"

subsection \<open>Option values\<close>

definition getOptionValue :: "command \<Rightarrow> string \<Rightarrow> jsval" where
  "getOptionValue this key =
     (if storeOptionsAsProperties this then properties this key else optionValues this key)"

definition getOptionValueSource :: "command \<Rightarrow> string \<Rightarrow> string option" where
  "getOptionValueSource this key = optionValueSources this key"

definition setOptionValueWithSource ::
  "string \<Rightarrow> jsval \<Rightarrow> string option \<Rightarrow> command \<Rightarrow> command" where
  "setOptionValueWithSource key val source this =
     (if storeOptionsAsProperties this
      then this\<lparr>properties := (properties this)(key := val),
                optionValueSources := (optionValueSources this)(key := source)\<rparr>
      else this\<lparr>optionValues := (optionValues this)(key := val),
                optionValueSources := (optionValueSources this)(key := source)\<rparr>)"

definition setOptionValue :: "string \<Rightarrow> jsval \<Rightarrow> command \<Rightarrow> command" where
  "setOptionValue key val this = setOptionValueWithSource key val None this"

subsection \<open>The value resolver (the handler registered by \<open>addOption\<close>)\<close>

text \<open>
  \<open>#callParseArg\<close>: a thrown error whose code is \<open>commander.invalidArgument\<close> becomes a
  call of \<open>this.error\<close> with the prefixed message (\<open>error\<close> uses exit code 1 when the given
  one is falsy); any other error is rethrown.
\<close>

definition callParseArg :: "parseArgFunc \<Rightarrow> jsval \<Rightarrow> jsval \<Rightarrow> string \<Rightarrow> error + jsval" where
  "callParseArg fn val previous invalidArgumentMessage =
     (case fn val previous of
        Inr v \<Rightarrow> Inr v
      | Inl (CommanderError exitCode code msg) \<Rightarrow>
          if code = ''commander.invalidArgument'' then
            Inl (CommanderError (if exitCode = 0 then 1 else exitCode) code
                   (invalidArgumentMessage @ '' '' @ msg))
          else Inl (CommanderError exitCode code msg)
      | Inl e \<Rightarrow> Inl e)"

text \<open>\<open>val == null\<close>: null or undefined.\<close>

definition isNullish :: "jsval \<Rightarrow> bool" where
  "isNullish v = (v = JNull \<or> v = JUndefined)"

text \<open>
  The three stages of \<open>handleOptionValue\<close>, in the order of the source: the preset, the
  custom processing, and the fill-in of a missing value.
\<close>

definition presetStage :: "opt \<Rightarrow> jsval \<Rightarrow> jsval" where
  "presetStage option val =
     (if isNullish val \<and> presetArg option \<noteq> JUndefined then presetArg option else val)"

definition customProcessing :: "opt \<Rightarrow> jsval \<Rightarrow> jsval \<Rightarrow> string \<Rightarrow> error + jsval" where
  "customProcessing option val oldValue invalidValueMessage =
     (case (val \<noteq> JNull, parseArg option) of
        (True, Some fn) \<Rightarrow> callParseArg fn val oldValue invalidValueMessage
      | _ \<Rightarrow>
          if val \<noteq> JNull \<and> variadic option then Inr (concatValue option val oldValue)
          else Inr val)"

definition fillInMissing :: "opt \<Rightarrow> jsval \<Rightarrow> jsval" where
  "fillInMissing option val =
     (if isNullish val then
        (if negate option then JBool False
         else if isBoolean option \<or> optional option then JBool True
         else JStr [])
      else val)"

definition handleOptionValue ::
  "opt \<Rightarrow> string \<Rightarrow> jsval \<Rightarrow> string \<Rightarrow> string \<Rightarrow> command \<Rightarrow> error + command" where
  "handleOptionValue option nm val invalidValueMessage valueSource this =
     (let val1 = presetStage option val;
          oldValue = getOptionValue this nm
      in case customProcessing option val1 oldValue invalidValueMessage of
           Inl e \<Rightarrow> Inl e
         | Inr val2 \<Rightarrow>
             Inr (setOptionValueWithSource nm (fillInMissing option val2) (Some valueSource) this))"

definition invalidValueMessage :: "opt \<Rightarrow> string \<Rightarrow> jsval \<Rightarrow> string" where
  "invalidValueMessage option valueSource val =
     (if valueSource = ''env'' then
        ''error: option '' @ quote @ flags option @ quote @ '' value '' @ quote @ jsToString val
        @ quote @ '' from env '' @ quote @ strOrUndefined (envVar option) @ quote @ '' is invalid.''
      else
        ''error: option '' @ quote @ flags option @ quote @ '' argument '' @ quote
        @ jsToString val @ quote @ '' is invalid.'')"

text \<open>
  \<open>emit(event, val)\<close> calls the listeners registered for the event, in registration order;
  a listener that throws ends the call.
\<close>

fun runListeners :: "(string \<times> listener) list \<Rightarrow> string \<Rightarrow> jsval \<Rightarrow> command \<Rightarrow> error + command" where
  "runListeners [] event val this = Inr this"
| "runListeners ((ev, OptionListener option nm valueSource) # ls) event val this =
     (if ev = event then
        (case handleOptionValue option nm val (invalidValueMessage option valueSource val)
                valueSource this of
           Inl e \<Rightarrow> Inl e
         | Inr this' \<Rightarrow> runListeners ls event val this')
      else runListeners ls event val this)"

definition emit :: "command \<Rightarrow> string \<Rightarrow> jsval \<Rightarrow> error + command" where
  "emit this event val = runListeners (listeners this) event val this"

subsection \<open>Registering an option\<close>

definition findOption :: "command \<Rightarrow> string \<Rightarrow> opt option" where
  "findOption this arg = find (\<lambda>option. optionIs option arg) (options this)"

definition findTruthy :: "command \<Rightarrow> string option \<Rightarrow> opt option" where
  "findTruthy this flag =
     (case flag of Some f \<Rightarrow> if f \<noteq> [] then findOption this f else None | None \<Rightarrow> None)"

definition registerOption :: "opt \<Rightarrow> command \<Rightarrow> error + command" where
  "registerOption option this =
     (case (case findTruthy this (short option) of
              Some m \<Rightarrow> Some m
            | None \<Rightarrow> findTruthy this (long option)) of
        Some matchingOption \<Rightarrow>
          (let matchingFlag =
                 (case findTruthy this (long option) of
                    Some _ \<Rightarrow> strOrUndefined (long option)
                  | None \<Rightarrow> strOrUndefined (short option))
           in Inl (JsError
                (''Cannot add option '' @ quote @ flags option @ quote
                 @ (if cmd_name this = [] then []
                    else '' to command '' @ quote @ cmd_name this @ quote)
                 @ '' due to conflicting flag '' @ quote @ matchingFlag @ quote @ [CHR 0x0A]
                 @ ''-  already used by option '' @ quote @ flags matchingOption @ quote)))
      | None \<Rightarrow> Inr (this\<lparr>options := options this @ [option]\<rparr>))"

text \<open>
  \<open>addOption\<close>: register, store the default, and add the listeners for values from the
  command line and (when the option has an environment variable) from the environment.
\<close>

definition storeDefault :: "opt \<Rightarrow> string \<Rightarrow> command \<Rightarrow> error + command" where
  "storeDefault option nm this =
     (if negate option then
        (case long option of
           None \<Rightarrow> Inl (TypeError ''Cannot read properties of undefined (reading replace)'')
         | Some l \<Rightarrow>
             (let positiveLongFlag =
                    (if take 5 l = ''--no-'' then ''--'' @ drop 5 l else l)
              in case findOption this positiveLongFlag of
                   None \<Rightarrow>
                     Inr (setOptionValueWithSource nm
                            (if defaultValue option = JUndefined then JBool True
                             else defaultValue option)
                            (Some ''default'') this)
                 | Some _ \<Rightarrow> Inr this))
      else if defaultValue option \<noteq> JUndefined then
        Inr (setOptionValueWithSource nm (defaultValue option) (Some ''default'') this)
      else Inr this)"

definition addOption :: "opt \<Rightarrow> command \<Rightarrow> error + command" where
  "addOption option this =
     (case registerOption option this of
        Inl e \<Rightarrow> Inl e
      | Inr this1 \<Rightarrow>
     (case name option of
        Inl e \<Rightarrow> Inl e
      | Inr oname \<Rightarrow>
     (case attributeName option of
        Inl e \<Rightarrow> Inl e
      | Inr nm \<Rightarrow>
     (case storeDefault option nm this1 of
        Inl e \<Rightarrow> Inl e
      | Inr this2 \<Rightarrow>
          Inr (this2\<lparr>listeners := listeners this2
                 @ [(''option:'' @ oname, OptionListener option nm ''cli'')]
                 @ (if truthy (envVar option)
                    then [(''optionEnv:'' @ oname, OptionListener option nm ''env'')]
                    else [])\<rparr>)))))"

subsection \<open>Values from the environment (\<open>_parseOptionsEnv\<close>)\<close>

text \<open>\<open>process.env\<close> is a parameter: a map from variable names to strings.\<close>

definition parseOptionsEnvStep :: "(string \<rightharpoonup> string) \<Rightarrow> opt \<Rightarrow> command \<Rightarrow> error + command" where
  "parseOptionsEnvStep env option this =
     (case (if truthy (envVar option) then envVar option else None) of
        None \<Rightarrow> Inr this
      | Some ev \<Rightarrow>
     (case env ev of
        None \<Rightarrow> Inr this
      | Some envValue \<Rightarrow>
     (case attributeName option of
        Inl e \<Rightarrow> Inl e
      | Inr optionKey \<Rightarrow>
          if getOptionValue this optionKey = JUndefined
             \<or> getOptionValueSource this optionKey = Some ''default''
             \<or> getOptionValueSource this optionKey = Some ''config''
             \<or> getOptionValueSource this optionKey = Some ''env''
          then
            (case name option of
               Inl e \<Rightarrow> Inl e
             | Inr oname \<Rightarrow>
                 if required option \<or> optional option
                 then emit this (''optionEnv:'' @ oname) (JStr envValue)
                 else emit this (''optionEnv:'' @ oname) JUndefined)
          else Inr this)))"

fun parseOptionsEnvLoop :: "(string \<rightharpoonup> string) \<Rightarrow> opt list \<Rightarrow> command \<Rightarrow> error + command" where
  "parseOptionsEnvLoop env [] this = Inr this"
| "parseOptionsEnvLoop env (option # rest) this =
     (case parseOptionsEnvStep env option this of
        Inl e \<Rightarrow> Inl e
      | Inr this' \<Rightarrow> parseOptionsEnvLoop env rest this')"

definition parseOptionsEnv :: "(string \<rightharpoonup> string) \<Rightarrow> command \<Rightarrow> error + command" where
  "parseOptionsEnv env this = parseOptionsEnvLoop env (options this) this"

subsection \<open>Implied values (\<open>DualOptions\<close>, \<open>_parseOptionsImplied\<close>)\<close>

text \<open>
  The constructor of \<open>DualOptions\<close> fills the maps of positive and negative options, keyed
  by attribute name; a later option with the same key replaces an earlier one.
\<close>

fun dualOptionsScan ::
  "opt list \<Rightarrow> (string \<rightharpoonup> opt) \<Rightarrow> (string \<rightharpoonup> opt) \<Rightarrow> error + ((string \<rightharpoonup> opt) \<times> (string \<rightharpoonup> opt))" where
  "dualOptionsScan [] positiveOptions negativeOptions = Inr (positiveOptions, negativeOptions)"
| "dualOptionsScan (option # rest) positiveOptions negativeOptions =
     (case attributeName option of
        Inl e \<Rightarrow> Inl e
      | Inr key \<Rightarrow>
          if negate option
          then dualOptionsScan rest positiveOptions (negativeOptions(key \<mapsto> option))
          else dualOptionsScan rest (positiveOptions(key \<mapsto> option)) negativeOptions)"

definition valueFromOption ::
  "(string \<rightharpoonup> opt) \<Rightarrow> (string \<rightharpoonup> opt) \<Rightarrow> jsval \<Rightarrow> opt \<Rightarrow> error + bool" where
  "valueFromOption positiveOptions negativeOptions val option =
     (case attributeName option of
        Inl e \<Rightarrow> Inl e
      | Inr optionKey \<Rightarrow>
          (case (negativeOptions optionKey, positiveOptions optionKey) of
             (Some negativeOption, Some _) \<Rightarrow>
               (let preset = presetArg negativeOption;
                    negativeValue = (if preset \<noteq> JUndefined then preset else JBool False)
                in Inr (negate option = (negativeValue = val)))
           | _ \<Rightarrow> Inr True))"

definition hasCustomOptionValue :: "command \<Rightarrow> string \<Rightarrow> bool" where
  "hasCustomOptionValue this optionKey =
     (getOptionValue this optionKey \<noteq> JUndefined
      \<and> getOptionValueSource this optionKey \<noteq> Some ''default''
      \<and> getOptionValueSource this optionKey \<noteq> Some ''implied'')"

fun impliedFilter ::
  "command \<Rightarrow> (string \<rightharpoonup> opt) \<Rightarrow> (string \<rightharpoonup> opt) \<Rightarrow> opt list \<Rightarrow> error + opt list" where
  "impliedFilter this pos neg [] = Inr []"
| "impliedFilter this pos neg (option # rest) =
     (case (case implied option of
              None \<Rightarrow> Inr False
            | Some _ \<Rightarrow>
                (case attributeName option of
                   Inl e \<Rightarrow> Inl e
                 | Inr key \<Rightarrow>
                     if hasCustomOptionValue this key
                     then valueFromOption pos neg (getOptionValue this key) option
                     else Inr False)) of
        Inl e \<Rightarrow> Inl e
      | Inr keep \<Rightarrow>
          (case impliedFilter this pos neg rest of
             Inl e \<Rightarrow> Inl e
           | Inr kept \<Rightarrow> Inr (if keep then option # kept else kept)))"

text \<open>
  The keys of \<open>option.implied\<close> that have no custom value are selected first, then each is
  set with source \<open>implied\<close>. The implied object is an association list with distinct keys.
\<close>

definition applyImplied :: "opt \<Rightarrow> command \<Rightarrow> command" where
  "applyImplied option this =
     (case implied option of
        None \<Rightarrow> this
      | Some kvs \<Rightarrow>
          fold (\<lambda>(impliedKey, v) t. setOptionValueWithSource impliedKey v (Some ''implied'') t)
               (filter (\<lambda>(impliedKey, v). \<not> hasCustomOptionValue this impliedKey) kvs) this)"

definition parseOptionsImplied :: "command \<Rightarrow> error + command" where
  "parseOptionsImplied this =
     (case dualOptionsScan (options this) Map.empty Map.empty of
        Inl e \<Rightarrow> Inl e
      | Inr (pos, neg) \<Rightarrow>
          (case impliedFilter this pos neg (options this) of
             Inl e \<Rightarrow> Inl e
           | Inr selected \<Rightarrow> Inr (fold applyImplied selected this)))"

subsection \<open>Conflicting options\<close>

fun definedNonDefaultOptions :: "command \<Rightarrow> opt list \<Rightarrow> error + opt list" where
  "definedNonDefaultOptions this [] = Inr []"
| "definedNonDefaultOptions this (option # rest) =
     (case attributeName option of
        Inl e \<Rightarrow> Inl e
      | Inr optionKey \<Rightarrow>
          (let keep = (if getOptionValue this optionKey = JUndefined then False
                       else getOptionValueSource this optionKey \<noteq> Some ''default'')
           in case definedNonDefaultOptions this rest of
                Inl e \<Rightarrow> Inl e
              | Inr kept \<Rightarrow> Inr (if keep then option # kept else kept)))"

text \<open>\<open>definedNonDefaultOptions.find((defined) => option.conflictsWith.includes(defined.attributeName()))\<close>\<close>

fun findConflictingAndDefined :: "opt \<Rightarrow> opt list \<Rightarrow> error + opt option" where
  "findConflictingAndDefined option [] = Inr None"
| "findConflictingAndDefined option (defined # rest) =
     (case attributeName defined of
        Inl e \<Rightarrow> Inl e
      | Inr key \<Rightarrow>
          if key \<in> set (conflictsWith option) then Inr (Some defined)
          else findConflictingAndDefined option rest)"

text \<open>\<open>this.options.find((target) => target.negate == wanted && optionKey === target.attributeName())\<close>\<close>

fun findByKey :: "bool \<Rightarrow> string \<Rightarrow> opt list \<Rightarrow> error + opt option" where
  "findByKey wanted optionKey [] = Inr None"
| "findByKey wanted optionKey (target # rest) =
     (if negate target = wanted then
        (case attributeName target of
           Inl e \<Rightarrow> Inl e
         | Inr key \<Rightarrow>
             if optionKey = key then Inr (Some target) else findByKey wanted optionKey rest)
      else findByKey wanted optionKey rest)"

definition findBestOptionFromValue :: "command \<Rightarrow> opt \<Rightarrow> error + opt" where
  "findBestOptionFromValue this option =
     (case attributeName option of
        Inl e \<Rightarrow> Inl e
      | Inr optionKey \<Rightarrow>
     (case findByKey True optionKey (options this) of
        Inl e \<Rightarrow> Inl e
      | Inr negativeOption \<Rightarrow>
     (case findByKey False optionKey (options this) of
        Inl e \<Rightarrow> Inl e
      | Inr positiveOption \<Rightarrow>
          (let optionValue = getOptionValue this optionKey
           in case negativeOption of
                Some n \<Rightarrow>
                  if (presetArg n = JUndefined \<and> optionValue = JBool False)
                     \<or> (presetArg n \<noteq> JUndefined \<and> optionValue = presetArg n)
                  then Inr n
                  else Inr (case positiveOption of Some p \<Rightarrow> p | None \<Rightarrow> option)
              | None \<Rightarrow> Inr (case positiveOption of Some p \<Rightarrow> p | None \<Rightarrow> option)))))"

definition getErrorMessage :: "command \<Rightarrow> opt \<Rightarrow> error + string" where
  "getErrorMessage this option =
     (case findBestOptionFromValue this option of
        Inl e \<Rightarrow> Inl e
      | Inr bestOption \<Rightarrow>
     (case attributeName bestOption of
        Inl e \<Rightarrow> Inl e
      | Inr optionKey \<Rightarrow>
          if getOptionValueSource this optionKey = Some ''env''
          then Inr (''environment variable '' @ quote @ strOrUndefined (envVar bestOption) @ quote)
          else Inr (''option '' @ quote @ flags bestOption @ quote)))"

text \<open>\<open>#conflictingOption\<close> never returns: its value is the error it leaves with.\<close>

definition conflictingOption :: "command \<Rightarrow> opt \<Rightarrow> opt \<Rightarrow> error" where
  "conflictingOption this option conflicting =
     (case getErrorMessage this option of
        Inl e \<Rightarrow> e
      | Inr m1 \<Rightarrow>
     (case getErrorMessage this conflicting of
        Inl e \<Rightarrow> e
      | Inr m2 \<Rightarrow>
          CommanderError 1 ''commander.conflictingOption''
            (''error: '' @ m1 @ '' cannot be used with '' @ m2)))"

fun conflictLoop :: "command \<Rightarrow> opt list \<Rightarrow> opt list \<Rightarrow> error + unit" where
  "conflictLoop this defined [] = Inr ()"
| "conflictLoop this defined (option # rest) =
     (case findConflictingAndDefined option defined of
        Inl e \<Rightarrow> Inl e
      | Inr (Some conflictingAndDefined) \<Rightarrow>
          Inl (conflictingOption this option conflictingAndDefined)
      | Inr None \<Rightarrow> conflictLoop this defined rest)"

definition checkForConflictingLocalOptions :: "command \<Rightarrow> error + unit" where
  "checkForConflictingLocalOptions this =
     (case definedNonDefaultOptions this (options this) of
        Inl e \<Rightarrow> Inl e
      | Inr defined \<Rightarrow>
          conflictLoop this defined (filter (\<lambda>option. conflictsWith option \<noteq> []) defined))"

subsection \<open>The command and its ancestors\<close>

text \<open>
  \<open>#getCommandAndAncestors\<close> follows the parent references until there is none. On a
  cyclic parent chain the loop of the source does not end: the value is then \<open>None\<close>.
\<close>

partial_function (option) getCommandAndAncestors :: "store \<Rightarrow> cid \<Rightarrow> cid list option" where
  "getCommandAndAncestors st command =
     (case parent (st command) of
        None \<Rightarrow> Some [command]
      | Some p \<Rightarrow> Option.bind (getCommandAndAncestors st p) (\<lambda>result. Some (command # result)))"

fun checkConflictsEach :: "command list \<Rightarrow> error + unit" where
  "checkConflictsEach [] = Inr ()"
| "checkConflictsEach (cmd # rest) =
     (case checkForConflictingLocalOptions cmd of
        Inl e \<Rightarrow> Inl e
      | Inr _ \<Rightarrow> checkConflictsEach rest)"

definition checkForConflictingOptions :: "store \<Rightarrow> cid \<Rightarrow> (error + unit) option" where
  "checkForConflictingOptions st this =
     (case getCommandAndAncestors st this of
        None \<Rightarrow> None
      | Some chain \<Rightarrow> Some (checkConflictsEach (map st chain)))"

subsection \<open>Life cycle hooks\<close>

definition allowedValues :: "string list" where
  "allowedValues = [''preSubcommand'', ''preAction'', ''postAction'']"

definition hook :: "string \<Rightarrow> string \<Rightarrow> command \<Rightarrow> error + command" where
  "hook event listener this =
     (if event \<notin> set allowedValues then
        Inl (JsError (''Unexpected value for event passed to hook : '' @ quote @ event @ quote
                      @ ''.'' @ [CHR 0x0A] @ ''Expecting one of '' @ quote
                      @ joinWith (quote @ '', '' @ quote) allowedValues @ quote))
      else
        Inr (this\<lparr>lifeCycleHooks := (lifeCycleHooks this)
               (event := (case lifeCycleHooks this event of
                            HooksList callbacks \<Rightarrow> HooksList (callbacks @ [listener])
                          | _ \<Rightarrow> HooksList [listener]))\<rparr>))"

text \<open>
  The first loop of \<open>#chainOrCallHooks\<close>: the commands whose slot is not undefined, and for
  each the callbacks of its slot. Iterating a \<open>null\<close> slot throws.
\<close>

fun collectHooks :: "store \<Rightarrow> string \<Rightarrow> cid list \<Rightarrow> error + (cid \<times> string) list" where
  "collectHooks st event [] = Inr []"
| "collectHooks st event (hookedCommand # rest) =
     (case lifeCycleHooks (st hookedCommand) event of
        HooksUndefined \<Rightarrow> collectHooks st event rest
      | HooksNull \<Rightarrow> Inl (TypeError ''object null is not iterable'')
      | HooksList callbacks \<Rightarrow>
          (case collectHooks st event rest of
             Inl e \<Rightarrow> Inl e
           | Inr hooks \<Rightarrow> Inr (map (Pair hookedCommand) callbacks @ hooks)))"

text \<open>
  \<open>#chainOrCallHooks\<close>: the value is the sequence of calls \<open>callback(hookedCommand, this)\<close>
  in the order in which the chain makes them (each after the one before has completed).
\<close>

definition chainOrCallHooks :: "store \<Rightarrow> cid \<Rightarrow> string \<Rightarrow> (error + (cid \<times> string) list) option" where
  "chainOrCallHooks st this event =
     (case getCommandAndAncestors st this of
        None \<Rightarrow> None
      | Some chain \<Rightarrow>
          Some (case collectHooks st event (rev chain) of
                  Inl e \<Rightarrow> Inl e
                | Inr hooks \<Rightarrow> Inr (if event = ''postAction'' then rev hooks else hooks)))"

definition chainOrCallSubCommandHook :: "store \<Rightarrow> cid \<Rightarrow> string \<Rightarrow> error + (cid \<times> string) list" where
  "chainOrCallSubCommandHook st this event =
     (case lifeCycleHooks (st this) event of
        HooksUndefined \<Rightarrow> Inr []
      | HooksNull \<Rightarrow> Inl (TypeError ''object null is not iterable'')
      | HooksList callbacks \<Rightarrow> Inr (map (Pair this) callbacks))"

subsection \<open>The calls made when an action is dispatched\<close>






subsection \<open>Subcommands and aliases\<close>

text \<open>
  \<open>#findCommand\<close> (which reads the fields \<open>_name\<close> and \<open>_aliases\<close> under the names \<open>#name\<close>
  and \<open>#aliases\<close>).
\<close>

definition findCommand :: "store \<Rightarrow> cid \<Rightarrow> string option \<Rightarrow> cid option" where
  "findCommand st this nm =
     (case nm of
        None \<Rightarrow> None
      | Some n \<Rightarrow>
          if n = [] then None
          else find (\<lambda>cmd. cmd_name (st cmd) = n \<or> n \<in> set (aliases (st cmd)))
                    (commands (st this)))"

text \<open>
  \<open>alias\<close>: without an argument the first alias is returned; with one, the alias is added
  and the command itself returned (here: the updated store).
\<close>

datatype aliasResult = FirstAlias "string option" | Chained store

definition lastCommand :: "store \<Rightarrow> cid \<Rightarrow> cid option" where
  "lastCommand st this = (case rev (commands (st this)) of [] \<Rightarrow> None | c # _ \<Rightarrow> Some c)"

definition alias_command :: "store \<Rightarrow> cid \<Rightarrow> string option \<Rightarrow> error + aliasResult" where
  "alias_command st this aliasArg =
     (case aliasArg of
        None \<Rightarrow> Inr (FirstAlias (case aliases (st this) of [] \<Rightarrow> None | a # _ \<Rightarrow> Some a))
      | Some a \<Rightarrow>
          (let command =
                 (case lastCommand st this of
                    Some l \<Rightarrow> if executableHandler (st l) then l else this
                  | None \<Rightarrow> this)
           in if a = cmd_name (st command) then
                Inl (JsError (''Command alias can'' @ quote @ ''t be the same as its name''))
              else
                (case (case parent (st this) of
                         None \<Rightarrow> None
                       | Some p \<Rightarrow> findCommand st p (Some a)) of
                   Some matchingCommand \<Rightarrow>
                     Inl (JsError
                       (''cannot add alias '' @ quote @ a @ quote @ '' to command '' @ quote
                        @ cmd_name (st this) @ quote @ '' as already have command '' @ quote
                        @ joinWith ''|'' (cmd_name (st matchingCommand) # aliases (st matchingCommand))
                        @ quote))
                 | None \<Rightarrow>
                     Inr (Chained (st(command := (st command)
                            \<lparr>aliases := aliases (st command) @ [a]\<rparr>))))))"

text \<open>\<open>_getHelpCommand\<close>: the help command is created on the first query that needs it.\<close>

definition getHelpCommand :: "store \<Rightarrow> cid \<Rightarrow> string option \<times> store" where
  "getHelpCommand st this =
     (let c = st this;
          hasImplicitHelpCommand =
            (case addImplicitHelpCommand c of
               Some b \<Rightarrow> b
             | None \<Rightarrow> commands c \<noteq> [] \<and> \<not> actionHandler c
                         \<and> Option.is_none (findCommand st this (Some ''help'')))
      in if hasImplicitHelpCommand then
           (case helpCommand c of
              None \<Rightarrow>
                (Some ''help'',
                 st(this := c\<lparr>addImplicitHelpCommand := Some True, helpCommand := Some ''help''\<rparr>))
            | Some h \<Rightarrow> (Some h, st))
         else (None, st))"

section \<open>Inspector port (\<open>incrementNodeInspectorPort\<close>)\<close>

definition isDigit :: "char \<Rightarrow> bool" where
  "isDigit c = (48 \<le> (of_char c :: nat) \<and> (of_char c :: nat) \<le> 57)"

text \<open>\<open>/^\d+$/\<close>\<close>

definition allDigits :: "string \<Rightarrow> bool" where
  "allDigits s = (s \<noteq> [] \<and> list_all isDigit s)"

text \<open>The value of a string of decimal digits.\<close>

definition parseNat :: "string \<Rightarrow> nat" where
  "parseNat s = foldl (\<lambda>acc c. 10 * acc + ((of_char c :: nat) - 48)) 0 s"

text \<open>
  \<open>`${Number.parseInt(debugPort) + 1}`\<close>. JavaScript numbers are doubles: the arithmetic is
  exact below \<open>2^53\<close>. What the engine prints for a longer digit string is the parameter
  \<open>big\<close>.
\<close>

definition portPlusOne :: "(string \<Rightarrow> string) \<Rightarrow> string \<Rightarrow> string" where
  "portPlusOne big debugPort =
     (if parseNat debugPort < 2 ^ 53 then showNat (parseNat debugPort + 1) else big debugPort)"

text \<open>
  The prefix \<open>(--inspect(-brk|-port)?)=\<close> of the second and third pattern: the option and
  what follows the equals sign.
\<close>

definition matchInspectEq :: "string \<Rightarrow> (string \<times> string) option" where
  "matchInspectEq arg =
     (if take 10 arg = ''--inspect='' then Some (''--inspect'', drop 10 arg)
      else if take 14 arg = ''--inspect-brk='' then Some (''--inspect-brk'', drop 14 arg)
      else if take 15 arg = ''--inspect-port='' then Some (''--inspect-port'', drop 15 arg)
      else None)"

text \<open>
  The three patterns in the order of the source; the result is \<open>(debugOption, debugHost,
  debugPort)\<close>, with the initial values where no pattern sets them.
\<close>

definition matchInspect :: "string \<Rightarrow> string \<times> string \<times> string" where
  "matchInspect arg =
     (if arg = ''--inspect'' \<or> arg = ''--inspect-brk'' then (arg, ''127.0.0.1'', ''9229'')
      else
        (case matchInspectEq arg of
           None \<Rightarrow> ([], ''127.0.0.1'', ''9229'')
         | Some (debugOption, rest) \<Rightarrow>
             if rest \<noteq> [] \<and> CHR '':'' \<notin> set rest then
               (if allDigits rest then (debugOption, ''127.0.0.1'', rest)
                else (debugOption, rest, ''9229''))
             else
               (let host = takeWhile (\<lambda>c. c \<noteq> CHR '':'') rest
                in case dropWhile (\<lambda>c. c \<noteq> CHR '':'') rest of
                     [] \<Rightarrow> ([], ''127.0.0.1'', ''9229'')
                   | _ # port \<Rightarrow>
                       if host \<noteq> [] \<and> allDigits port then (debugOption, host, port)
                       else ([], ''127.0.0.1'', ''9229''))))"

definition incrementArg :: "(string \<Rightarrow> string) \<Rightarrow> string \<Rightarrow> string" where
  "incrementArg big arg =
     (if take 9 arg \<noteq> ''--inspect'' then arg
      else
        (case matchInspect arg of
           (debugOption, debugHost, debugPort) \<Rightarrow>
             if debugOption \<noteq> [] \<and> debugPort \<noteq> ''0''
             then debugOption @ ''='' @ debugHost @ '':'' @ portPlusOne big debugPort
             else arg))"

definition incrementNodeInspectorPort :: "(string \<Rightarrow> string) \<Rightarrow> string list \<Rightarrow> string list" where
  "incrementNodeInspectorPort big args = map (incrementArg big) args"


section \<open>The token parser (\<open>parseOptions\<close>)\<close>

text \<open>
  String arrays are objects in a heap: \<open>parseOptions\<close> receives a reference to \<open>argv\<close>,
  creates the arrays \<open>operands\<close>, \<open>unknown\<close> and \<open>args\<close>, and \<open>dest\<close> is a second reference to
  \<open>operands\<close> or to \<open>unknown\<close>.
\<close>

type_synonym addr = nat

record heap =
  arrays :: "addr \<Rightarrow> string list"
  nextFree :: addr

definition newArray :: "string list \<Rightarrow> heap \<Rightarrow> addr \<times> heap" where
  "newArray xs h = (nextFree h, h\<lparr>arrays := (arrays h)(nextFree h := xs), nextFree := Suc (nextFree h)\<rparr>)"

definition setArray :: "addr \<Rightarrow> string list \<Rightarrow> heap \<Rightarrow> heap" where
  "setArray a xs h = h\<lparr>arrays := (arrays h)(a := xs)\<rparr>"

definition push :: "addr \<Rightarrow> string list \<Rightarrow> heap \<Rightarrow> heap" where
  "push a xs h = setArray a (arrays h a @ xs) h"

definition unshift :: "addr \<Rightarrow> string \<Rightarrow> heap \<Rightarrow> heap" where
  "unshift a x h = setArray a (x # arrays h a) h"

record pstate =
  cmds :: store
  hp :: heap
  operands :: addr
  unknown :: addr
  args :: addr
  dest :: addr
  activeVariadicOption :: "opt option"

text \<open>
  One pass through the body of the \<open>while\<close> loop ends in \<open>continue\<close> (or the end of the body),
  in \<open>break\<close>, or in an error; each carries the state reached.
\<close>

datatype 'a outcome = Continue 'a | Break 'a | Throw error 'a

definition maybeOption :: "string \<Rightarrow> bool" where
  "maybeOption arg = (case arg of c # _ # _ \<Rightarrow> c = CHR ''-'' | _ \<Rightarrow> False)"

definition optionMissingArgument :: "opt \<Rightarrow> error" where
  "optionMissingArgument option =
     CommanderError 1 ''commander.optionMissingArgument''
       (''error: option '' @ quote @ flags option @ quote @ '' argument missing'')"

text \<open>\<open>this.emit(`option:${option.name()}`, val)\<close>\<close>

definition emitOption :: "cid \<Rightarrow> opt \<Rightarrow> jsval \<Rightarrow> pstate \<Rightarrow> error + pstate" where
  "emitOption this option val ps =
     (case name option of
        Inl e \<Rightarrow> Inl e
      | Inr oname \<Rightarrow>
          (case emit (cmds ps this) (''option:'' @ oname) val of
             Inl e \<Rightarrow> Inl e
           | Inr this' \<Rightarrow> Inr (ps\<lparr>cmds := (cmds ps)(this := this')\<rparr>)))"

definition emitThen ::
  "cid \<Rightarrow> opt \<Rightarrow> jsval \<Rightarrow> pstate \<Rightarrow> (pstate \<Rightarrow> pstate outcome) \<Rightarrow> pstate outcome" where
  "emitThen this option val ps k =
     (case emitOption this option val ps of Inl e \<Rightarrow> Throw e ps | Inr ps' \<Rightarrow> k ps')"

definition pushTo :: "addr \<Rightarrow> string list \<Rightarrow> pstate \<Rightarrow> pstate" where
  "pushTo target xs ps = ps\<lparr>hp := push target xs (hp ps)\<rparr>"

text \<open>\<open>target.push(...args)\<close>\<close>

definition pushArgs :: "addr \<Rightarrow> pstate \<Rightarrow> pstate" where
  "pushArgs target ps = pushTo target (arrays (hp ps) (args ps)) ps"

text \<open>The literal \<open>--\<close>.\<close>

definition stepLiteral :: "string \<Rightarrow> pstate \<Rightarrow> pstate" where
  "stepLiteral arg ps =
     pushArgs (dest ps) (if dest ps = unknown ps then pushTo (dest ps) [arg] ps else ps)"

text \<open>A recognised option: the value is taken from the following token as the option asks.\<close>

definition stepKnownOption :: "cid \<Rightarrow> opt \<Rightarrow> pstate \<Rightarrow> pstate outcome" where
  "stepKnownOption this option ps =
     (let setActive =
            (\<lambda>ps'. Continue (ps'\<lparr>activeVariadicOption :=
                                   (if variadic option then Some option else None)\<rparr>))
      in if required option then
           (case arrays (hp ps) (args ps) of
              [] \<Rightarrow> Throw (optionMissingArgument option) ps
            | val # rest \<Rightarrow>
                emitThen this option (JStr val) (ps\<lparr>hp := setArray (args ps) rest (hp ps)\<rparr>)
                  setActive)
         else if optional option then
           (case arrays (hp ps) (args ps) of
              [] \<Rightarrow> emitThen this option JNull ps setActive
            | val # rest \<Rightarrow>
                if \<not> maybeOption val then
                  emitThen this option (JStr val) (ps\<lparr>hp := setArray (args ps) rest (hp ps)\<rparr>)
                    setActive
                else emitThen this option JNull ps setActive)
         else emitThen this option JUndefined ps setActive)"

text \<open>
  The checks under \<open>enablePositionalOptions\<close> or \<open>passThroughOptions\<close> before the first
  operand: \<open>Break\<close> where the source breaks, \<open>Continue\<close> where it goes on to the next check.
\<close>

definition stepPositional :: "cid \<Rightarrow> string \<Rightarrow> pstate \<Rightarrow> pstate outcome" where
  "stepPositional this arg ps =
     (if (enablePositionalOptions (cmds ps this) \<or> passThroughOptions (cmds ps this))
         \<and> arrays (hp ps) (operands ps) = [] \<and> arrays (hp ps) (unknown ps) = []
      then
        (case findCommand (cmds ps) this (Some arg) of
           Some _ \<Rightarrow> Break (pushArgs (unknown ps) (pushTo (operands ps) [arg] ps))
         | None \<Rightarrow>
             (let (help1, st1) = getHelpCommand (cmds ps) this;
                  (help2, st2) = (if help1 \<noteq> None then getHelpCommand st1 this else (None, st1));
                  ps' = ps\<lparr>cmds := st2\<rparr>
              in if help1 \<noteq> None \<and> help2 = Some arg then
                   Break (pushArgs (operands ps') (pushTo (operands ps') [arg] ps'))
                 else if truthy (defaultCommandName (cmds ps' this)) then
                   Break (pushArgs (unknown ps') (pushTo (unknown ps') [arg] ps'))
                 else Continue ps'))
      else Continue ps)"

text \<open>A token that is not an option of this command.\<close>

definition stepUnrecognised :: "cid \<Rightarrow> string \<Rightarrow> pstate \<Rightarrow> pstate outcome" where
  "stepUnrecognised this arg ps0 =
     (let ps = (if maybeOption arg then ps0\<lparr>dest := unknown ps0\<rparr> else ps0)
      in case stepPositional this arg ps of
           Break ps' \<Rightarrow> Break ps'
         | Throw e ps' \<Rightarrow> Throw e ps'
         | Continue ps' \<Rightarrow>
             if passThroughOptions (cmds ps' this)
             then Break (pushArgs (dest ps') (pushTo (dest ps') [arg] ps'))
             else Continue (pushTo (dest ps') [arg] ps'))"

text \<open>\<open>/^--[^=]+=/.test(arg)\<close> and \<open>arg.indexOf("=")\<close>.\<close>

definition longWithValue :: "string \<Rightarrow> bool" where
  "longWithValue arg =
     (take 2 arg = ''--'' \<and> takeWhile (\<lambda>c. c \<noteq> CHR ''='') (drop 2 arg) \<noteq> []
      \<and> dropWhile (\<lambda>c. c \<noteq> CHR ''='') (drop 2 arg) \<noteq> [])"

definition indexOfEq :: "string \<Rightarrow> nat" where
  "indexOfEq arg = length (takeWhile (\<lambda>c. c \<noteq> CHR ''='') arg)"

definition stepLongEq :: "cid \<Rightarrow> string \<Rightarrow> pstate \<Rightarrow> pstate outcome" where
  "stepLongEq this arg ps =
     (case (if longWithValue arg then
              (case findOption (cmds ps this) (take (indexOfEq arg) arg) of
                 Some option \<Rightarrow> if required option \<or> optional option then Some option else None
               | None \<Rightarrow> None)
            else None) of
        Some option \<Rightarrow> emitThen this option (JStr (drop (indexOfEq arg + 1) arg)) ps Continue
      | None \<Rightarrow> stepUnrecognised this arg ps)"

text \<open>Combined short options after a single dash: the first is taken when it is known.\<close>

definition stepCombo :: "cid \<Rightarrow> string \<Rightarrow> pstate \<Rightarrow> pstate outcome" where
  "stepCombo this arg ps =
     (case (case arg of
              c0 # c1 # _ # _ \<Rightarrow>
                if c0 = CHR ''-'' \<and> c1 \<noteq> CHR ''-''
                then findOption (cmds ps this) [CHR ''-'', c1] else None
            | _ \<Rightarrow> None) of
        Some option \<Rightarrow>
          if required option \<or> (optional option \<and> combineFlagAndOptionalValue (cmds ps this))
          then emitThen this option (JStr (drop 2 arg)) ps Continue
          else emitThen this option JUndefined ps
                 (\<lambda>ps'. Continue (ps'\<lparr>hp := unshift (args ps') (CHR ''-'' # drop 2 arg) (hp ps')\<rparr>))
      | None \<Rightarrow> stepLongEq this arg ps)"

definition stepOption :: "cid \<Rightarrow> string \<Rightarrow> pstate \<Rightarrow> pstate outcome" where
  "stepOption this arg ps =
     (case (if maybeOption arg then findOption (cmds ps this) arg else None) of
        Some option \<Rightarrow> stepKnownOption this option ps
      | None \<Rightarrow> stepCombo this arg ps)"

text \<open>The body of the loop, from \<open>args.shift()\<close> on.\<close>

definition parseStep :: "cid \<Rightarrow> pstate \<Rightarrow> pstate outcome" where
  "parseStep this ps0 =
     (case arrays (hp ps0) (args ps0) of
        [] \<Rightarrow> Break ps0
      | arg # rest \<Rightarrow>
          (let ps = ps0\<lparr>hp := setArray (args ps0) rest (hp ps0)\<rparr>
           in if arg = ''--'' then Break (stepLiteral arg ps)
              else
                (case (activeVariadicOption ps, maybeOption arg) of
                   (Some active, False) \<Rightarrow> emitThen this active (JStr arg) ps Continue
                 | _ \<Rightarrow> stepOption this arg (ps\<lparr>activeVariadicOption := None\<rparr>))))"

text \<open>
  The loop. With the arrays the source creates it ends; on a state where \<open>dest\<close> and \<open>args\<close>
  are the same array it would not, and the value is \<open>None\<close>.
\<close>

partial_function (option) parseLoop :: "cid \<Rightarrow> pstate \<Rightarrow> ((error + unit) \<times> pstate) option" where
  "parseLoop this ps =
     (if arrays (hp ps) (args ps) = [] then Some (Inr (), ps)
      else
        (case parseStep this ps of
           Continue ps' \<Rightarrow> parseLoop this ps'
         | Break ps' \<Rightarrow> Some (Inr (), ps')
         | Throw e ps' \<Rightarrow> Some (Inl e, ps')))"

text \<open>
  \<open>parseOptions(argv)\<close>: the arrays \<open>operands\<close> and \<open>unknown\<close> are created empty, \<open>args\<close> is
  \<open>argv.slice()\<close>, \<open>dest\<close> starts as \<open>operands\<close>. The result is the final state; \<open>operands\<close>
  and \<open>unknown\<close> of that state are the arrays returned.
\<close>

definition initialState :: "store \<Rightarrow> heap \<Rightarrow> addr \<Rightarrow> pstate" where
  "initialState st h argv =
     (let (operandsA, h1) = newArray [] h;
          (unknownA, h2) = newArray [] h1;
          (argsA, h3) = newArray (arrays h2 argv) h2
      in \<lparr>cmds = st, hp = h3, operands = operandsA, unknown = unknownA, args = argsA,
          dest = operandsA, activeVariadicOption = None\<rparr>)"

definition parseOptions :: "store \<Rightarrow> cid \<Rightarrow> heap \<Rightarrow> addr \<Rightarrow> ((error + unit) \<times> pstate) option" where
  "parseOptions st this h argv = parseLoop this (initialState st h argv)"

text \<open>
  The first statements of \<open>#parseCommand(operands, unknown)\<close>, up to the assignment of
  \<open>this.args\<close>: the value holds the combined operands and the unknown tokens.
\<close>

definition parseCommand_head ::
  "(string \<rightharpoonup> string) \<Rightarrow> store \<Rightarrow> cid \<Rightarrow> heap \<Rightarrow> addr \<Rightarrow> addr
     \<Rightarrow> ((error + (string list \<times> string list)) \<times> store \<times> heap) option" where
  "parseCommand_head env st this h operandsIn unknownIn =
     (case parseOptions st this h unknownIn of
        None \<Rightarrow> None
      | Some (Inl e, ps) \<Rightarrow> Some (Inl e, cmds ps, hp ps)
      | Some (Inr _, ps) \<Rightarrow>
          (case parseOptionsEnv env (cmds ps this) of
             Inl e \<Rightarrow> Some (Inl e, cmds ps, hp ps)
           | Inr this1 \<Rightarrow>
               (case parseOptionsImplied this1 of
                  Inl e \<Rightarrow> Some (Inl e, (cmds ps)(this := this1), hp ps)
                | Inr this2 \<Rightarrow>
                    (let operands' = arrays (hp ps) operandsIn @ arrays (hp ps) (operands ps);
                         unknown' = arrays (hp ps) (unknown ps)
                     in Some (Inr (operands', unknown'),
                              (cmds ps)(this := this2\<lparr>cmd_args := operands' @ unknown'\<rparr>),
                              hp ps)))))"

subsection \<open>Notions used to state the properties of the parser\<close>

text \<open>
  The arrays of a parser state are distinct objects, as \<open>parseOptions\<close> creates them, and
  \<open>dest\<close> refers to \<open>operands\<close> or to \<open>unknown\<close>.
\<close>

definition distinctArrays :: "pstate \<Rightarrow> bool" where
  "distinctArrays ps =
     (operands ps \<noteq> args ps \<and> unknown ps \<noteq> args ps \<and> operands ps \<noteq> unknown ps
      \<and> (dest ps = operands ps \<or> dest ps = unknown ps))"

text \<open>The state reached by one pass, whatever way it ends.\<close>

fun outState :: "'a outcome \<Rightarrow> 'a" where
  "outState (Continue x) = x"
| "outState (Break x) = x"
| "outState (Throw e x) = x"

text \<open>
  What a pass may change: the three arrays of the parser and the store of commands; the
  references, the allocation pointer and every other array stay.
\<close>

definition frame :: "pstate \<Rightarrow> pstate \<Rightarrow> bool" where
  "frame ps ps' =
     (operands ps' = operands ps \<and> unknown ps' = unknown ps \<and> args ps' = args ps
      \<and> nextFree (hp ps') = nextFree (hp ps) \<and> distinctArrays ps'
      \<and> (\<forall>a. a \<noteq> operands ps \<and> a \<noteq> unknown ps \<and> a \<noteq> args ps
             \<longrightarrow> arrays (hp ps') a = arrays (hp ps) a))"

text \<open>The size of the tokens still queued: it decreases with every pass that continues.\<close>

definition argsSize :: "pstate \<Rightarrow> nat" where
  "argsSize ps = sum_list (map (\<lambda>tok. Suc (length tok)) (arrays (hp ps) (args ps)))"


section \<open>Example programs\<close>

text \<open>A store in which every reference denotes the one command \<open>c\<close> (a program without subcommands).\<close>

definition singleCommand :: "command \<Rightarrow> store" where
  "singleCommand c = (\<lambda>_. c)"

text \<open>A heap that holds the given arrays at the addresses \<open>0, 1, ...\<close>\<close>

definition heapOf :: "string list list \<Rightarrow> heap" where
  "heapOf xss = \<lparr>arrays = (\<lambda>a. if a < length xss then xss ! a else []), nextFree = length xss\<rparr>"

text \<open>Adding options one after the other, as chained calls of \<open>addOption\<close> do.\<close>

fun addOptions :: "opt list \<Rightarrow> command \<Rightarrow> error + command" where
  "addOptions [] this = Inr this"
| "addOptions (option # rest) this =
     (case addOption option this of Inl e \<Rightarrow> Inl e | Inr this' \<Rightarrow> addOptions rest this')"

text \<open>The program built by the given calls (an unconfigured one if a call throws).\<close>

definition program :: "opt list \<Rightarrow> command" where
  "program opts = (case addOptions opts (newCommand ''s'') of Inl _ \<Rightarrow> newCommand ''s'' | Inr c \<Rightarrow> c)"

text \<open>
  What a caller observes of \<open>parseOptions\<close>: the error if any, the operands, the unknown
  tokens, and the values and sources of the given option keys.
\<close>

definition observe ::
  "cid \<Rightarrow> string list \<Rightarrow> ((error + unit) \<times> pstate) option
     \<Rightarrow> ((error + unit) \<times> string list \<times> string list \<times> (jsval \<times> string option) list) option" where
  "observe this keys res =
     map_option
       (\<lambda>(r, ps). (r, arrays (hp ps) (operands ps), arrays (hp ps) (unknown ps),
                   map (\<lambda>k. (getOptionValue (cmds ps this) k, getOptionValueSource (cmds ps this) k))
                       keys))
       res"

text \<open>
  The command after \<open>parseOptions\<close> has run on \<open>argv\<close> for the program with the given
  options (the program as built, if the parser throws).
\<close>

definition afterParse :: "opt list \<Rightarrow> string list \<Rightarrow> command" where
  "afterParse opts argv =
     (case parseOptions (singleCommand (program opts)) 0 (heapOf [argv]) 0 of
        Some (Inr _, ps) \<Rightarrow> cmds ps 0
      | _ \<Rightarrow> program opts)"

text \<open>What \<open>#parseCommand\<close> has assigned to \<open>this.args\<close>.\<close>

definition assignedArgs ::
  "cid \<Rightarrow> ((error + (string list \<times> string list)) \<times> store \<times> heap) option \<Rightarrow> string list option" where
  "assignedArgs this res = map_option (\<lambda>(r, st, h). cmd_args (st this)) res"

text \<open>The value and the source stored under a key, in the result of a handler or a pass.\<close>

definition valueAndSource :: "string \<Rightarrow> error + command \<Rightarrow> error + (jsval \<times> string option)" where
  "valueAndSource key res =
     (case res of
        Inl e \<Rightarrow> Inl e
      | Inr c \<Rightarrow> Inr (getOptionValue c key, getOptionValueSource c key))"

text \<open>Registering hooks one after the other (a rejected event name leaves the command as it is).\<close>

definition hooked :: "(string \<times> string) list \<Rightarrow> command \<Rightarrow> command" where
  "hooked evs c =
     fold (\<lambda>(event, listener) c'. case hook event listener c' of Inr c'' \<Rightarrow> c'' | Inl _ \<Rightarrow> c') evs c"

text \<open>The aliases of a command after a call of \<open>alias\<close> that added one.\<close>

definition aliasesAfter :: "cid \<Rightarrow> error + aliasResult \<Rightarrow> string list option" where
  "aliasesAfter c res = (case res of Inr (Chained st') \<Rightarrow> Some (aliases (st' c)) | _ \<Rightarrow> None)"

text \<open>
  A program \<open>pm\<close> (0) with the subcommands \<open>install\<close> (1) and, added last, the executable
  subcommand \<open>start\<close> (2).
\<close>

definition pmStore :: store where
  "pmStore =
     (\<lambda>_. (newCommand ''pm'')\<lparr>commands := [1, 2]\<rparr>)
       (1 := (newCommand ''install'')\<lparr>parent := Some 0\<rparr>,
        2 := (newCommand ''start'')\<lparr>parent := Some 0, executableHandler := True\<rparr>)"

text \<open>
  A stand-in, in the examples, for what the engine prints for a port beyond \<open>2^53\<close>; no
  example has such a port.
\<close>

definition unrendered :: "string \<Rightarrow> string" where
  "unrendered p = p"

section \<open>Notions used to state the properties\<close>

text \<open>The attribute name of an option whose name is well formed.\<close>

definition attributeKey :: "opt \<Rightarrow> string" where
  "attributeKey option = (case attributeName option of Inr key \<Rightarrow> key | Inl _ \<Rightarrow> [])"

definition wellNamed :: "opt \<Rightarrow> bool" where
  "wellNamed option = (case attributeName option of Inr _ \<Rightarrow> True | Inl _ \<Rightarrow> False)"

text \<open>
  The options that the conflict check of the source considers: those with a defined value
  whose source is not \<open>default\<close>.
\<close>

definition considered :: "command \<Rightarrow> opt list" where
  "considered this =
     filter (\<lambda>option. getOptionValue this (attributeKey option) \<noteq> JUndefined
                     \<and> getOptionValueSource this (attributeKey option) \<noteq> Some ''default'')
            (options this)"

definition conflictAmong :: "opt list \<Rightarrow> bool" where
  "conflictAmong defined =
     list_ex (\<lambda>option. list_ex (\<lambda>d. attributeKey d \<in> set (conflictsWith option)) defined) defined"

text \<open>
  The conflict check in the words of the specification: the options considered are those
  whose value source is not \<open>default\<close>, and there is a conflict when the \<open>conflicts_with\<close>
  list of one of them names another of them.
\<close>

definition considered_spec :: "command \<Rightarrow> opt list" where
  "considered_spec this =
     filter (\<lambda>option. getOptionValueSource this (attributeKey option) \<noteq> Some ''default'')
            (options this)"

definition conflict_spec :: "command \<Rightarrow> bool" where
  "conflict_spec this =
     list_ex (\<lambda>option.
                list_ex (\<lambda>d. flags d \<noteq> flags option
                              \<and> attributeKey d \<in> set (conflictsWith option))
                        (considered_spec this))
             (considered_spec this)"

text \<open>
  The condition of the environment pass in the words of the specification: the value
  source of the option is one of undefined, \<open>default\<close>, \<open>config\<close>, \<open>env\<close>.
\<close>

definition envEventExpected_spec :: "command \<Rightarrow> opt \<Rightarrow> bool" where
  "envEventExpected_spec this option =
     (getOptionValueSource this (attributeKey option) = None
      \<or> getOptionValueSource this (attributeKey option) = Some ''default''
      \<or> getOptionValueSource this (attributeKey option) = Some ''config''
      \<or> getOptionValueSource this (attributeKey option) = Some ''env'')"

text \<open>The listeners of a command are those that \<open>addOption\<close> registers.\<close>

definition listenersRegistered :: "command \<Rightarrow> bool" where
  "listenersRegistered this =
     list_all (\<lambda>(ev, l).
                 case l of OptionListener option nm valueSource \<Rightarrow>
                   (case name option of
                      Inl _ \<Rightarrow> False
                    | Inr oname \<Rightarrow>
                        attributeName option = Inr nm
                        \<and> (ev = ''option:'' @ oname \<or> ev = ''optionEnv:'' @ oname)))
              (listeners this)"

text \<open>
  The listeners as \<open>addOption\<close> registers them, with the value source: \<open>cli\<close> for the event
  of the command line, \<open>env\<close> for the event of the environment.
\<close>

definition listenersFromAddOption :: "command \<Rightarrow> bool" where
  "listenersFromAddOption this =
     list_all (\<lambda>(ev, l).
                 case l of OptionListener option nm valueSource \<Rightarrow>
                   (case name option of
                      Inl _ \<Rightarrow> False
                    | Inr oname \<Rightarrow>
                        attributeName option = Inr nm
                        \<and> ((ev = ''option:'' @ oname \<and> valueSource = ''cli'')
                            \<or> (ev = ''optionEnv:'' @ oname \<and> valueSource = ''env''))))
              (listeners this)"

text \<open>The test of the environment pass: the value under the key may be replaced.\<close>

definition envMayStore :: "command \<Rightarrow> string \<Rightarrow> bool" where
  "envMayStore this key =
     (getOptionValue this key = JUndefined
      \<or> getOptionValueSource this key = Some ''default''
      \<or> getOptionValueSource this key = Some ''config''
      \<or> getOptionValueSource this key = Some ''env'')"

text \<open>What a run of listeners that store with source \<open>env\<close> does to a key.\<close>

definition envOrSame :: "string \<Rightarrow> command \<Rightarrow> command \<Rightarrow> bool" where
  "envOrSame key this t =
     (listeners t = listeners this
      \<and> (getOptionValueSource t key = Some ''env''
          \<or> (getOptionValue t key = getOptionValue this key
              \<and> getOptionValueSource t key = getOptionValueSource this key)))"


text \<open>The callbacks of a command for an event, in the order of their registration.\<close>

definition hookList :: "store \<Rightarrow> string \<Rightarrow> cid \<Rightarrow> string list" where
  "hookList st event c =
     (case lifeCycleHooks (st c) event of HooksList callbacks \<Rightarrow> callbacks | _ \<Rightarrow> [])"

text \<open>
  The order of the calls in the words of the specification: the commands in the given
  order, and within each command the callbacks in declaration order.
\<close>

definition declarationOrder_spec :: "store \<Rightarrow> string \<Rightarrow> cid list \<Rightarrow> (cid \<times> string) list" where
  "declarationOrder_spec st event cs = concat (map (\<lambda>c. map (Pair c) (hookList st event c)) cs)"

text \<open>The command on which \<open>alias\<close> registers: the last subcommand if it is an executable one.\<close>

definition aliasTarget :: "store \<Rightarrow> cid \<Rightarrow> cid" where
  "aliasTarget st this =
     (if commands (st this) \<noteq> [] \<and> executableHandler (st (last (commands (st this))))
      then last (commands (st this)) else this)"


section \<open>Verified properties\<close>

subsection \<open>Registering arguments\<close>

lemma previousArgument_last:
  "previousArgument regs = (if regs = [] then None else Some (last regs))"
  by (cases regs rule: rev_cases) (simp_all add: previousArgument_def)

text \<open>
  C8. \<open>addArgument\<close> throws exactly when the previously registered argument is variadic, or
  the new argument is required and has a default value but no \<open>parseArg\<close>; in every other
  case the argument is appended to \<open>registeredArguments\<close> and nothing else changes.
\<close>

theorem addArgument_throws_or_appends:
  "(case addArgument arg this of
      Inl e \<Rightarrow>
        (registeredArguments this \<noteq> [] \<and> arg_variadic (last (registeredArguments this)))
        \<or> (arg_required arg \<and> arg_defaultValue arg \<noteq> JUndefined \<and> arg_parseArg arg = None)
    | Inr this' \<Rightarrow>
        \<not> (registeredArguments this \<noteq> [] \<and> arg_variadic (last (registeredArguments this)))
        \<and> \<not> (arg_required arg \<and> arg_defaultValue arg \<noteq> JUndefined \<and> arg_parseArg arg = None)
        \<and> this' = this\<lparr>registeredArguments := registeredArguments this @ [arg]\<rparr>)"
  by (auto simp: addArgument_def previousArgument_last Option.is_none_def
           split: option.splits if_splits)

text \<open>
  The theorem at \<open>program.argument("<a>").argument("[bs...]")\<close> followed by a third
  argument: the first two are appended, the third is rejected.
\<close>

theorem addArgument_throws_or_appends_witness:
  "addArgument (newArgument ''<a>'') (newCommand ''p'')
     = Inr ((newCommand ''p'')\<lparr>registeredArguments := [newArgument ''<a>'']\<rparr>)
   \<and> (\<exists>e. addArgument (newArgument ''c'')
             ((newCommand ''p'')\<lparr>registeredArguments := [newArgument ''<a>'', newArgument ''[bs...]'']\<rparr>)
           = Inl e)"
proof -
  have v: "arg_variadic (newArgument ''[bs...]'')"
    by (simp add: newArgument_def)
  have nv: "arg_parseArg (newArgument ''<a>'') = None \<and> arg_defaultValue (newArgument ''<a>'') = JUndefined"
    by (simp add: newArgument_def)
  have a: "addArgument (newArgument ''<a>'') (newCommand ''p'')
     = Inr ((newCommand ''p'')\<lparr>registeredArguments := [newArgument ''<a>'']\<rparr>)"
    using addArgument_throws_or_appends [where arg = "newArgument ''<a>''" and this = "newCommand ''p''"] nv
    by (auto simp: newCommand_def split: sum.splits)
  have b: "\<exists>e. addArgument (newArgument ''c'')
             ((newCommand ''p'')\<lparr>registeredArguments := [newArgument ''<a>'', newArgument ''[bs...]'']\<rparr>)
           = Inl e"
    using addArgument_throws_or_appends [where arg = "newArgument ''c''" and this =
        "(newCommand ''p'')\<lparr>registeredArguments := [newArgument ''<a>'', newArgument ''[bs...]'']\<rparr>"] v
    by (auto split: sum.splits)
  show ?thesis using a b by simp
qed

subsection \<open>Evaluating the model on concrete programs\<close>

lemmas parser_defs = parseOptions_def initialState_def newArray_def parseLoop.simps parseStep_def
  stepLiteral_def stepOption_def stepKnownOption_def stepCombo_def stepLongEq_def
  stepUnrecognised_def stepPositional_def maybeOption_def findOption_def optionIs_def
  longWithValue_def indexOfEq_def pushArgs_def pushTo_def push_def setArray_def unshift_def
  emitThen_def emitOption_def Let_def


lemmas option_defs = newOption_def splitOptionFlags_def variadicFlags_def isFlagSeparator_def
  isWordChar_def truthy_def name_def attributeName_def camelcase_def stripPrefix_def

lemmas program_defs = program_def addOption_def registerOption_def findTruthy_def findOption_def
  optionIs_def storeDefault_def newCommand_def setOptionValueWithSource_def strOrUndefined_def

lemmas resolver_defs = emit_def handleOptionValue_def presetStage_def customProcessing_def
  fillInMissing_def isNullish_def isBoolean_def getOptionValue_def getOptionValueSource_def
  setOptionValueWithSource_def invalidValueMessage_def concatValue_def callParseArg_def Let_def

lemma toUpperCase_w [simp]: "toUpperCase CHR ''w'' = CHR ''W''"
  by code_simp


subsection \<open>The parser changes only its own arrays, and ends\<close>

lemma frame_refl: "distinctArrays ps \<Longrightarrow> frame ps ps"
  by (simp add: frame_def)

lemma frame_trans: "frame a b \<Longrightarrow> frame b c \<Longrightarrow> frame a c"
  by (simp add: frame_def)

lemma frame_cmds: "distinctArrays ps \<Longrightarrow> frame ps (ps\<lparr>cmds := st\<rparr>)"
  by (simp add: frame_def distinctArrays_def)

lemma frame_active: "distinctArrays ps \<Longrightarrow> frame ps (ps\<lparr>activeVariadicOption := v\<rparr>)"
  by (simp add: frame_def distinctArrays_def)

lemma frame_dest: "distinctArrays ps \<Longrightarrow> frame ps (ps\<lparr>dest := unknown ps\<rparr>)"
  by (simp add: frame_def distinctArrays_def)

lemma frame_setArray:
  "distinctArrays ps \<Longrightarrow> a = operands ps \<or> a = unknown ps \<or> a = args ps \<Longrightarrow>
   frame ps (ps\<lparr>hp := setArray a xs (hp ps)\<rparr>)"
  by (auto simp: frame_def distinctArrays_def setArray_def)

lemma frame_pushTo:
  "distinctArrays ps \<Longrightarrow> a = operands ps \<or> a = unknown ps \<or> a = args ps \<Longrightarrow>
   frame ps (pushTo a xs ps)"
  by (simp add: pushTo_def push_def frame_setArray)

lemma frame_pushArgs:
  "distinctArrays ps \<Longrightarrow> a = operands ps \<or> a = unknown ps \<or> a = args ps \<Longrightarrow>
   frame ps (pushArgs a ps)"
  by (simp add: pushArgs_def frame_pushTo)

lemma frame_unshift:
  "distinctArrays ps \<Longrightarrow> frame ps (ps\<lparr>hp := unshift (args ps) x (hp ps)\<rparr>)"
  by (simp add: unshift_def frame_setArray)

lemma frame_distinct: "frame ps ps' \<Longrightarrow> distinctArrays ps'"
  by (simp add: frame_def)

lemma frame_emitOption:
  "distinctArrays ps \<Longrightarrow> emitOption this option val ps = Inr ps' \<Longrightarrow> frame ps ps'"
  by (auto simp: emitOption_def frame_cmds split: sum.splits)

lemma emitOption_args:
  "emitOption this option val ps = Inr ps' \<Longrightarrow> hp ps' = hp ps \<and> args ps' = args ps"
  by (auto simp: emitOption_def split: sum.splits)

lemma frame_emitThen:
  assumes "distinctArrays ps" and "\<And>ps'. distinctArrays ps' \<Longrightarrow> frame ps' (outState (k ps'))"
  shows "frame ps (outState (emitThen this option val ps k))"
proof (cases "emitOption this option val ps")
  case (Inl e)
  then show ?thesis using assms(1) by (simp add: emitThen_def frame_refl)
next
  case (Inr ps')
  have "frame ps ps'" using assms(1) Inr by (rule frame_emitOption)
  moreover have "frame ps' (outState (k ps'))"
    using assms(2) frame_distinct [OF \<open>frame ps ps'\<close>] by simp
  ultimately show ?thesis using Inr by (auto simp: emitThen_def intro: frame_trans)
qed

lemma pushTo_fields [simp]:
  "operands (pushTo a xs ps) = operands ps" "unknown (pushTo a xs ps) = unknown ps"
  "args (pushTo a xs ps) = args ps" "dest (pushTo a xs ps) = dest ps"
  "cmds (pushTo a xs ps) = cmds ps"
  by (simp_all add: pushTo_def)

lemma pushArgs_fields [simp]:
  "operands (pushArgs a ps) = operands ps" "unknown (pushArgs a ps) = unknown ps"
  "args (pushArgs a ps) = args ps" "dest (pushArgs a ps) = dest ps"
  "cmds (pushArgs a ps) = cmds ps"
  by (simp_all add: pushArgs_def)

lemma frame_push2:
  assumes "distinctArrays ps" "a = operands ps \<or> a = unknown ps" "b = operands ps \<or> b = unknown ps"
  shows "frame ps (pushArgs b (pushTo a xs ps))"
proof -
  have 1: "frame ps (pushTo a xs ps)" using assms by (auto intro: frame_pushTo)
  have 2: "frame (pushTo a xs ps) (pushArgs b (pushTo a xs ps))"
    using assms frame_distinct [OF 1] by (auto intro!: frame_pushArgs)
  show ?thesis using 1 2 by (rule frame_trans)
qed

lemma frame_stepLiteral: "distinctArrays ps \<Longrightarrow> frame ps (stepLiteral arg ps)"
  unfolding stepLiteral_def
  by (auto simp: distinctArrays_def intro!: frame_push2 frame_pushArgs)

lemma frame_shift_then:
  assumes "distinctArrays ps"
    and "\<And>ps'. distinctArrays ps' \<Longrightarrow> frame ps' (outState (f ps'))"
  shows "frame ps (outState (f (ps\<lparr>hp := setArray (args ps) xs (hp ps)\<rparr>)))"
proof -
  have 1: "frame ps (ps\<lparr>hp := setArray (args ps) xs (hp ps)\<rparr>)"
    using assms(1) by (simp add: frame_setArray)
  show ?thesis using frame_trans [OF 1 assms(2) [OF frame_distinct [OF 1]]] .
qed

lemma frame_setActive:
  "distinctArrays ps' \<Longrightarrow> frame ps' (outState (Continue (ps'\<lparr>activeVariadicOption := v\<rparr>)))"
  by (simp add: frame_active)

lemma frame_emit_setActive:
  assumes "distinctArrays ps"
  shows "frame ps (outState (emitThen this option val ps
           (\<lambda>ps'. Continue (ps'\<lparr>activeVariadicOption := v\<rparr>))))"
  using assms by (rule frame_emitThen) (rule frame_setActive)

lemma frame_shift_emit_setActive:
  assumes "distinctArrays ps"
  shows "frame ps (outState (emitThen this option val (ps\<lparr>hp := setArray (args ps) xs (hp ps)\<rparr>)
           (\<lambda>ps'. Continue (ps'\<lparr>activeVariadicOption := v\<rparr>))))"
proof -
  have 1: "frame ps (ps\<lparr>hp := setArray (args ps) xs (hp ps)\<rparr>)"
    using assms by (simp add: frame_setArray)
  show ?thesis
    by (rule frame_trans [OF 1 frame_emit_setActive [OF frame_distinct [OF 1]]])
qed

lemma frame_stepKnownOption:
  assumes "distinctArrays ps"
  shows "frame ps (outState (stepKnownOption this option ps))"
proof (cases "arrays (hp ps) (args ps)")
  case Nil
  then show ?thesis
    using assms frame_emit_setActive [OF assms]
    by (simp add: stepKnownOption_def Let_def frame_refl)
next
  case (Cons v rest)
  then show ?thesis
    using frame_emit_setActive [OF assms] frame_shift_emit_setActive [OF assms]
    by (simp add: stepKnownOption_def Let_def)
qed

lemma frame_stepPositional:
  assumes "distinctArrays ps"
  shows "frame ps (outState (stepPositional this arg ps))"
proof -
  obtain help1 st1 where g1: "getHelpCommand (cmds ps) this = (help1, st1)" by fastforce
  obtain help2 st2 where
    g2: "(if help1 \<noteq> None then getHelpCommand st1 this else (None, st1)) = (help2, st2)"
    by fastforce
  define ps' where "ps' = ps\<lparr>cmds := st2\<rparr>"
  have f: "frame ps ps'" using assms by (simp add: ps'_def frame_cmds)
  have d: "distinctArrays ps'" using f by (rule frame_distinct)
  have a: "frame ps (pushArgs (unknown ps) (pushTo (operands ps) [arg] ps))"
    using assms by (simp add: frame_push2)
  have b: "frame ps (pushArgs (operands ps') (pushTo (operands ps') [arg] ps'))"
    using f d by (auto intro: frame_trans frame_push2)
  have c: "frame ps (pushArgs (unknown ps') (pushTo (unknown ps') [arg] ps'))"
    using f d by (auto intro: frame_trans frame_push2)
  show ?thesis
    using assms a b c f g1 g2
    by (simp add: stepPositional_def Let_def ps'_def [symmetric] frame_refl split: option.splits)
qed

lemma frame_stepUnrecognised:
  assumes "distinctArrays ps"
  shows "frame ps (outState (stepUnrecognised this arg ps))"
proof -
  define ps1 where "ps1 = (if maybeOption arg then ps\<lparr>dest := unknown ps\<rparr> else ps)"
  have 1: "frame ps ps1" using assms by (simp add: ps1_def frame_dest frame_refl)
  have d1: "distinctArrays ps1" using 1 by (rule frame_distinct)
  have 2: "frame ps1 (outState (stepPositional this arg ps1))"
    using d1 by (rule frame_stepPositional)
  have 3: "frame ps1 (outState (stepUnrecognised this arg ps))"
  proof (cases "stepPositional this arg ps1")
    case (Continue ps')
    then have f: "frame ps1 ps'" using 2 by simp
    then have d: "distinctArrays ps'" by (rule frame_distinct)
    then have "dest ps' = operands ps' \<or> dest ps' = unknown ps'" by (simp add: distinctArrays_def)
    then have "frame ps' (pushArgs (dest ps') (pushTo (dest ps') [arg] ps'))"
      and "frame ps' (pushTo (dest ps') [arg] ps')"
      using d by (auto intro!: frame_push2 frame_pushTo)
    then show ?thesis using Continue f
      by (auto simp: stepUnrecognised_def ps1_def [symmetric] intro: frame_trans)
  next
    case (Break ps')
    then show ?thesis using 2 by (simp add: stepUnrecognised_def ps1_def [symmetric])
  next
    case (Throw e ps')
    then show ?thesis using 2 by (simp add: stepUnrecognised_def ps1_def [symmetric])
  qed
  show ?thesis using 1 3 by (rule frame_trans)
qed

lemma frame_Continue: "distinctArrays ps' \<Longrightarrow> frame ps' (outState (Continue ps'))"
  by (simp add: frame_refl)

lemma frame_stepLongEq:
  "distinctArrays ps \<Longrightarrow> frame ps (outState (stepLongEq this arg ps))"
  unfolding stepLongEq_def
  by (auto split: option.splits intro!: frame_stepUnrecognised frame_emitThen frame_Continue)

lemma frame_unshift_Continue:
  "distinctArrays ps' \<Longrightarrow>
   frame ps' (outState (Continue (ps'\<lparr>hp := unshift (args ps') x (hp ps')\<rparr>)))"
  by (simp add: frame_unshift)

lemma frame_stepCombo:
  "distinctArrays ps \<Longrightarrow> frame ps (outState (stepCombo this arg ps))"
  unfolding stepCombo_def
  by (auto split: option.splits
      intro!: frame_stepLongEq frame_emitThen frame_Continue frame_unshift_Continue)

lemma frame_stepOption:
  "distinctArrays ps \<Longrightarrow> frame ps (outState (stepOption this arg ps))"
  unfolding stepOption_def
  by (auto split: option.splits intro!: frame_stepCombo frame_stepKnownOption)

lemma frame_parseStep:
  assumes "distinctArrays ps"
  shows "frame ps (outState (parseStep this ps))"
proof (cases "arrays (hp ps) (args ps)")
  case Nil
  then show ?thesis using assms by (simp add: parseStep_def frame_refl)
next
  case (Cons arg rest)
  define ps1 where "ps1 = ps\<lparr>hp := setArray (args ps) rest (hp ps)\<rparr>"
  have 1: "frame ps ps1" using assms by (simp add: ps1_def frame_setArray)
  have d1: "distinctArrays ps1" using 1 by (rule frame_distinct)
  have da: "distinctArrays (ps1\<lparr>activeVariadicOption := None\<rparr>)"
    using frame_active [OF d1] by (rule frame_distinct)
  have "frame ps1 (outState (stepOption this arg (ps1\<lparr>activeVariadicOption := None\<rparr>)))"
    using frame_trans [OF frame_active [OF d1] frame_stepOption [OF da]] .
  moreover have "frame ps1 (stepLiteral arg ps1)" using d1 by (rule frame_stepLiteral)
  moreover have "\<And>a. frame ps1 (outState (emitThen this a (JStr arg) ps1 Continue))"
    using d1 by (auto intro!: frame_emitThen frame_Continue)
  ultimately have "frame ps1 (outState (parseStep this ps))"
    using Cons by (auto simp: parseStep_def ps1_def [symmetric] Let_def split: option.splits bool.splits)
  with 1 show ?thesis by (rule frame_trans)
qed


lemma emitThen_Continue:
  assumes "emitThen this option val ps k = Continue ps'"
  shows "\<exists>ps1. hp ps1 = hp ps \<and> args ps1 = args ps \<and> k ps1 = Continue ps'"
proof (cases "emitOption this option val ps")
  case (Inl e)
  then show ?thesis using assms by (simp add: emitThen_def)
next
  case (Inr ps1)
  then have "k ps1 = Continue ps'" using assms by (simp add: emitThen_def)
  then show ?thesis using emitOption_args [OF Inr] by blast
qed

lemma argsSize_cong: "hp ps' = hp ps \<Longrightarrow> args ps' = args ps \<Longrightarrow> argsSize ps' = argsSize ps"
  by (simp add: argsSize_def)

lemma size_stepKnownOption:
  assumes "stepKnownOption this option ps = Continue ps'"
  shows "argsSize ps' \<le> argsSize ps"
  using assms unfolding stepKnownOption_def Let_def
  by (auto split: if_splits list.splits dest!: emitThen_Continue
        simp: argsSize_def setArray_def)


lemma size_stepPositional:
  "stepPositional this arg ps = Continue ps' \<Longrightarrow>
   hp ps' = hp ps \<and> args ps' = args ps \<and> dest ps' = dest ps"
  unfolding stepPositional_def Let_def
  by (auto split: if_splits option.splits prod.splits)

lemma size_stepUnrecognised:
  assumes "stepUnrecognised this arg ps = Continue ps'" and "distinctArrays ps"
  shows "argsSize ps' = argsSize ps"
proof -
  define ps1 where "ps1 = (if maybeOption arg then ps\<lparr>dest := unknown ps\<rparr> else ps)"
  have h1: "hp ps1 = hp ps" "args ps1 = args ps" "dest ps1 \<noteq> args ps"
    using assms(2) by (auto simp: ps1_def distinctArrays_def)
  from assms(1) obtain ps2 where s: "stepPositional this arg ps1 = Continue ps2"
    and r: "ps' = pushTo (dest ps2) [arg] ps2"
    by (auto simp: stepUnrecognised_def ps1_def [symmetric] Let_def split: outcome.splits if_splits)
  from size_stepPositional [OF s] h1 show ?thesis
    by (simp add: r argsSize_def pushTo_def push_def setArray_def)
qed


lemma emitThen_Continue_size:
  "emitThen this option val ps Continue = Continue ps' \<Longrightarrow> argsSize ps' = argsSize ps"
  by (auto dest!: emitThen_Continue simp: argsSize_def)

lemma size_stepLongEq:
  assumes "stepLongEq this arg ps = Continue ps'" and "distinctArrays ps"
  shows "argsSize ps' = argsSize ps"
proof (cases "if longWithValue arg then
              (case findOption (cmds ps this) (take (indexOfEq arg) arg) of
                 Some option \<Rightarrow> if required option \<or> optional option then Some option else None
               | None \<Rightarrow> None)
            else None")
  case None
  then show ?thesis using assms by (simp add: stepLongEq_def size_stepUnrecognised)
next
  case (Some option)
  then show ?thesis using assms(1) by (simp add: stepLongEq_def emitThen_Continue_size)
qed

lemma size_stepCombo:
  assumes "stepCombo this arg ps = Continue ps'" and "distinctArrays ps"
  shows "argsSize ps' \<le> argsSize ps + length arg"
proof (cases "case arg of c0 # c1 # _ # _ \<Rightarrow>
                if c0 = CHR ''-'' \<and> c1 \<noteq> CHR ''-''
                then findOption (cmds ps this) [CHR ''-'', c1] else None
            | _ \<Rightarrow> None")
  case None
  then show ?thesis using assms by (simp add: stepCombo_def size_stepLongEq)
next
  case (Some option)
  then have len: "3 \<le> length arg" by (auto split: list.splits)
  show ?thesis
  proof (cases "required option \<or> (optional option \<and> combineFlagAndOptionalValue (cmds ps this))")
    case True
    then show ?thesis using assms(1) Some
      by (auto simp: stepCombo_def dest: emitThen_Continue_size)
  next
    case False
    then have "emitThen this option JUndefined ps
                 (\<lambda>ps'. Continue (ps'\<lparr>hp := unshift (args ps') (CHR ''-'' # drop 2 arg) (hp ps')\<rparr>))
               = Continue ps'"
      using assms(1) Some by (auto simp: stepCombo_def)
    from emitThen_Continue [OF this] len show ?thesis
      by (auto simp: argsSize_def unshift_def setArray_def)
  qed
qed


lemma size_stepOption:
  assumes "stepOption this arg ps = Continue ps'" and "distinctArrays ps"
  shows "argsSize ps' \<le> argsSize ps + length arg"
proof (cases "if maybeOption arg then findOption (cmds ps this) arg else None")
  case None
  then have "stepCombo this arg ps = Continue ps'" using assms(1) by (simp add: stepOption_def)
  then show ?thesis using assms(2) by (rule size_stepCombo)
next
  case (Some option)
  then have "stepKnownOption this option ps = Continue ps'"
    using assms(1) by (simp add: stepOption_def)
  from size_stepKnownOption [OF this] show ?thesis by simp
qed

lemma size_parseStep:
  assumes "parseStep this ps = Continue ps'" and "distinctArrays ps"
  shows "argsSize ps' < argsSize ps"
proof (cases "arrays (hp ps) (args ps)")
  case Nil
  then show ?thesis using assms by (simp add: parseStep_def)
next
  case (Cons arg rest)
  define ps1 where "ps1 = ps\<lparr>hp := setArray (args ps) rest (hp ps)\<rparr>"
  have sz: "argsSize ps = Suc (length arg) + argsSize ps1"
    using Cons by (simp add: argsSize_def ps1_def setArray_def)
  have d1: "distinctArrays ps1" using assms(2) by (simp add: ps1_def distinctArrays_def)
  have da: "distinctArrays (ps1\<lparr>activeVariadicOption := None\<rparr>)"
    using d1 by (simp add: distinctArrays_def)
  have sa: "argsSize (ps1\<lparr>activeVariadicOption := None\<rparr>) = argsSize ps1"
    by (simp add: argsSize_def)
  have ne: "arg \<noteq> ''--''" using assms(1) Cons by (auto simp: parseStep_def Let_def)
  have "argsSize ps' \<le> argsSize ps1 + length arg"
  proof (cases "case (activeVariadicOption ps1, maybeOption arg) of
                   (Some active, False) \<Rightarrow> True | _ \<Rightarrow> False")
    case True
    then obtain active where "activeVariadicOption ps = Some active" "\<not> maybeOption arg"
      by (auto simp: ps1_def split: option.splits bool.splits)
    then have "emitThen this active (JStr arg) ps1 Continue = Continue ps'"
      using assms(1) Cons ne by (simp add: parseStep_def ps1_def [symmetric] Let_def)
    from emitThen_Continue_size [OF this] show ?thesis by simp
  next
    case False
    then have "activeVariadicOption ps = None \<or> maybeOption arg"
      by (auto simp: ps1_def split: option.splits bool.splits)
    then have "stepOption this arg (ps1\<lparr>activeVariadicOption := None\<rparr>) = Continue ps'"
      using assms(1) Cons ne
      by (auto simp: parseStep_def ps1_def [symmetric] Let_def split: option.splits bool.splits)
    from size_stepOption [OF this da] sa show ?thesis by simp
  qed
  then show ?thesis using sz by simp
qed

lemma parseLoop_total_frame:
  "distinctArrays ps \<Longrightarrow> \<exists>r ps'. parseLoop this ps = Some (r, ps') \<and> frame ps ps'"
proof (induction "argsSize ps" arbitrary: ps rule: less_induct)
  case less
  show ?case
  proof (cases "arrays (hp ps) (args ps) = []")
    case True
    then show ?thesis using less.prems by (subst parseLoop.simps) (simp add: frame_refl)
  next
    case False
    have f: "frame ps (outState (parseStep this ps))" using less.prems by (rule frame_parseStep)
    show ?thesis
    proof (cases "parseStep this ps")
      case (Continue ps1)
      have "argsSize ps1 < argsSize ps" using Continue less.prems by (rule size_parseStep)
      moreover have f1: "frame ps ps1" using f Continue by simp
      ultimately obtain r ps' where "parseLoop this ps1 = Some (r, ps')" "frame ps1 ps'"
        using less.hyps frame_distinct by blast
      then show ?thesis using False Continue f1
        by (subst parseLoop.simps) (auto intro: frame_trans)
    next
      case (Break ps1)
      then show ?thesis using False f by (subst parseLoop.simps) simp
    next
      case (Throw e ps1)
      then show ?thesis using False f by (subst parseLoop.simps) simp
    qed
  qed
qed

lemma initialState_distinct: "distinctArrays (initialState st h argv)"
  by (simp add: initialState_def newArray_def distinctArrays_def Let_def)

lemma initialState_fields:
  "operands (initialState st h argv) = nextFree h"
  "unknown (initialState st h argv) = Suc (nextFree h)"
  "args (initialState st h argv) = Suc (Suc (nextFree h))"
  "a < nextFree h \<Longrightarrow> arrays (hp (initialState st h argv)) a = arrays h a"
  by (simp_all add: initialState_def newArray_def Let_def)


text \<open>
  C10. \<open>parseOptions\<close> returns (or throws) for every store, heap and \<open>argv\<close>, and every array
  that existed before the call, \<open>argv\<close> among them, holds the same elements in the same
  order afterwards; the arrays returned are new ones.
\<close>

theorem parseOptions_leaves_argv:
  "\<exists>r ps'. parseOptions st this h argv = Some (r, ps')
     \<and> (\<forall>a. a < nextFree h \<longrightarrow> arrays (hp ps') a = arrays h a)
     \<and> nextFree h \<le> operands ps' \<and> nextFree h \<le> unknown ps'"
proof -
  from parseLoop_total_frame [OF initialState_distinct] obtain r ps' where
    l: "parseLoop this (initialState st h argv) = Some (r, ps')"
    and f: "frame (initialState st h argv) ps'" by blast
  have "\<forall>a. a < nextFree h \<longrightarrow> arrays (hp ps') a = arrays h a"
    using f by (auto simp: frame_def initialState_fields)
  moreover have "nextFree h \<le> operands ps' \<and> nextFree h \<le> unknown ps'"
    using f by (simp add: frame_def initialState_fields)
  ultimately show ?thesis using l by (simp add: parseOptions_def)
qed

theorem parseOptions_leaves_argv_witness:
  "\<exists>r ps'. parseOptions (singleCommand (program [newOption ''-b''])) 0
              (heapOf [[''-ab'', ''--'', ''x'']]) 0 = Some (r, ps')
     \<and> arrays (hp ps') 0 = [''-ab'', ''--'', ''x'']"
  using parseOptions_leaves_argv [of "singleCommand (program [newOption ''-b''])" 0
          "heapOf [[''-ab'', ''--'', ''x'']]" 0]
  by (auto simp: heapOf_def)

subsection \<open>The literal \<open>--\<close>\<close>

text \<open>
  C1, as the code has it. When the parser meets a literal \<open>--\<close>, parsing ends without an
  option event. If no unknown option came before (\<open>dest\<close> is \<open>operands\<close>), the remaining
  tokens are appended to \<open>operands\<close> and the \<open>--\<close> is dropped; if one did (\<open>dest\<close> is
  \<open>unknown\<close>), the \<open>--\<close> and the remaining tokens are appended to \<open>unknown\<close>, and so to the
  final \<open>args\<close>.
\<close>

theorem literal_dashes_ends_parsing:
  assumes "distinctArrays ps" and "arrays (hp ps) (args ps) = ''--'' # rest"
  shows "\<exists>ps'. parseLoop this ps = Some (Inr (), ps')
           \<and> cmds ps' = cmds ps \<and> operands ps' = operands ps \<and> unknown ps' = unknown ps
           \<and> arrays (hp ps') (operands ps) =
               (if dest ps = unknown ps then arrays (hp ps) (operands ps)
                else arrays (hp ps) (operands ps) @ rest)
           \<and> arrays (hp ps') (unknown ps) =
               (if dest ps = unknown ps then arrays (hp ps) (unknown ps) @ ''--'' # rest
                else arrays (hp ps) (unknown ps))"
  using assms
  by (subst parseLoop.simps)
     (auto simp: parseStep_def stepLiteral_def pushArgs_def pushTo_def push_def setArray_def
        distinctArrays_def Let_def)


theorem literal_dashes_ends_parsing_witness:
  "distinctArrays (initialState (singleCommand (newCommand ''s'')) (heapOf [[''--'', ''-a'', ''--'']]) 0)
   \<and> observe 0 [] (parseOptions (singleCommand (newCommand ''s'')) 0 (heapOf [[''--'', ''-a'', ''--'']]) 0)
       = Some (Inr (), [''-a'', ''--''], [], [])"
proof -
  let ?ps = "initialState (singleCommand (newCommand ''s'')) (heapOf [[''--'', ''-a'', ''--'']]) 0"
  have d: "distinctArrays ?ps"
    by (simp add: initialState_def newArray_def distinctArrays_def Let_def)
  have q: "arrays (hp ?ps) (args ?ps) = ''--'' # [''-a'', ''--'']"
    by (simp add: initialState_def newArray_def heapOf_def Let_def)
  from literal_dashes_ends_parsing [OF d q, of 0] obtain ps' where
    "parseLoop 0 ?ps = Some (Inr (), ps')"
    "operands ps' = operands ?ps" "unknown ps' = unknown ?ps"
    "arrays (hp ps') (operands ?ps) =
       (if dest ?ps = unknown ?ps then arrays (hp ?ps) (operands ?ps)
        else arrays (hp ?ps) (operands ?ps) @ [''-a'', ''--''])"
    "arrays (hp ps') (unknown ?ps) =
       (if dest ?ps = unknown ?ps then arrays (hp ?ps) (unknown ?ps) @ ''--'' # [''-a'', ''--'']
        else arrays (hp ?ps) (unknown ?ps))"
    by blast
  then have "observe 0 [] (parseOptions (singleCommand (newCommand ''s'')) 0 (heapOf [[''--'', ''-a'', ''--'']]) 0)
       = Some (Inr (), [''-a'', ''--''], [], [])"
    by (simp add: observe_def parseOptions_def)
       (simp add: initialState_def newArray_def heapOf_def Let_def)
  with d show ?thesis by simp
qed


text \<open>
  C1 as stated fails: after the unknown option \<open>--unknown\<close>, the tokens \<open>--\<close> and \<open>x\<close> go to
  \<open>unknown\<close>, not to \<open>operands\<close>, and \<open>--\<close> is in the \<open>args\<close> that \<open>#parseCommand\<close> assigns.
\<close>

theorem dashes_in_args_counterexample:
  "observe 0 [] (parseOptions (singleCommand (newCommand ''s'')) 0
                  (heapOf [[''--unknown'', ''--'', ''x'']]) 0)
     = Some (Inr (), [], [''--unknown'', ''--'', ''x''], [])
   \<and> assignedArgs 0 (parseCommand_head Map.empty (singleCommand (newCommand ''s'')) 0
                       (heapOf [[], [''--unknown'', ''--'', ''x'']]) 0 1)
     = Some [''--unknown'', ''--'', ''x'']"
  by (simp add: observe_def assignedArgs_def parseCommand_head_def parser_defs singleCommand_def
      heapOf_def newCommand_def parseOptionsEnv_def parseOptionsImplied_def)

subsection \<open>Combined short options\<close>

lemma findOption_name:
  assumes "findOption c arg = Some option" and "arg \<noteq> []"
  shows "\<exists>oname. name option = Inr oname"
proof -
  have "optionIs option arg"
    using assms(1) by (auto simp: findOption_def find_Some_iff)
  then show ?thesis using assms(2)
    by (auto simp: optionIs_def name_def truthy_def split: option.splits)
qed


text \<open>
  C2, as the code has it. A token \<open>-Xrest\<close> (longer than two characters, one leading dash)
  that is not itself a declared flag, where \<open>-X\<close> is a declared flag: if the option takes a
  required argument, or an optional one and \<open>combineFlagAndOptionalValue\<close> is on, the event
  \<open>(-X, rest)\<close> is emitted and the token is consumed; otherwise \<open>-X\<close> is emitted without a
  value and \<open>-rest\<close> is put back at the front of the queue.
\<close>

theorem short_cluster_step:
  assumes q: "arrays (hp ps) (args ps) = arg # rest"
    and shape: "arg = CHR ''-'' # x # r" "r \<noteq> []" "x \<noteq> CHR ''-''"
    and notExact: "findOption (cmds ps this) arg = None"
    and known: "findOption (cmds ps this) [CHR ''-'', x] = Some option"
  shows "\<exists>oname. name option = Inr oname \<and>
     parseStep this ps =
       (if required option \<or> (optional option \<and> combineFlagAndOptionalValue (cmds ps this)) then
          (case emit (cmds ps this) (''option:'' @ oname) (JStr r) of
             Inl e \<Rightarrow> Throw e (ps\<lparr>hp := setArray (args ps) rest (hp ps), activeVariadicOption := None\<rparr>)
           | Inr this' \<Rightarrow>
               Continue (ps\<lparr>cmds := (cmds ps)(this := this'),
                            hp := setArray (args ps) rest (hp ps),
                            activeVariadicOption := None\<rparr>))
        else
          (case emit (cmds ps this) (''option:'' @ oname) JUndefined of
             Inl e \<Rightarrow> Throw e (ps\<lparr>hp := setArray (args ps) rest (hp ps), activeVariadicOption := None\<rparr>)
           | Inr this' \<Rightarrow>
               Continue (ps\<lparr>cmds := (cmds ps)(this := this'),
                            hp := setArray (args ps) ((CHR ''-'' # r) # rest) (hp ps),
                            activeVariadicOption := None\<rparr>)))"
proof -
  from findOption_name [OF known] obtain oname where n: "name option = Inr oname" by auto
  obtain r0 rs where r: "r = r0 # rs" using shape(2) by (cases r) auto
  have mo: "maybeOption arg" using shape by (simp add: maybeOption_def)
  have ne: "arg \<noteq> ''--''" using shape by auto
  have "parseStep this ps = stepCombo this arg
          (ps\<lparr>hp := setArray (args ps) rest (hp ps), activeVariadicOption := None\<rparr>)"
    using q mo ne notExact
    by (simp add: parseStep_def stepOption_def Let_def split: option.splits bool.splits)
  also have "\<dots> = (if required option \<or> (optional option \<and> combineFlagAndOptionalValue (cmds ps this)) then
          (case emit (cmds ps this) (''option:'' @ oname) (JStr r) of
             Inl e \<Rightarrow> Throw e (ps\<lparr>hp := setArray (args ps) rest (hp ps), activeVariadicOption := None\<rparr>)
           | Inr this' \<Rightarrow>
               Continue (ps\<lparr>cmds := (cmds ps)(this := this'),
                            hp := setArray (args ps) rest (hp ps),
                            activeVariadicOption := None\<rparr>))
        else
          (case emit (cmds ps this) (''option:'' @ oname) JUndefined of
             Inl e \<Rightarrow> Throw e (ps\<lparr>hp := setArray (args ps) rest (hp ps), activeVariadicOption := None\<rparr>)
           | Inr this' \<Rightarrow>
               Continue (ps\<lparr>cmds := (cmds ps)(this := this'),
                            hp := setArray (args ps) ((CHR ''-'' # r) # rest) (hp ps),
                            activeVariadicOption := None\<rparr>)))"
    using known n shape(1,3) r
    by (auto simp: stepCombo_def emitThen_def emitOption_def unshift_def setArray_def
        split: sum.splits)
  finally show ?thesis using n by blast
qed


theorem short_cluster_step_witness:
  "findOption (program [newOption ''-x <n>'', newOption ''-y <n>'']) ''-xn1'' = None
   \<and> findOption (program [newOption ''-x <n>'', newOption ''-y <n>'']) ''-x'' = Some (newOption ''-x <n>'')
   \<and> (\<exists>ps'. parseStep 0 (initialState (singleCommand (program [newOption ''-x <n>'', newOption ''-y <n>'']))
                            (heapOf [[''-xn1'', ''-y'', ''2'']]) 0) = Continue ps'
          \<and> getOptionValue (cmds ps' 0) ''x'' = JStr ''n1''
          \<and> arrays (hp ps') (args ps') = [''-y'', ''2''])
   \<and> observe 0 [''x'', ''y'']
        (parseOptions (singleCommand (program [newOption ''-x <n>'', newOption ''-y <n>''])) 0
           (heapOf [[''-xn1'', ''-y'', ''2'']]) 0)
      = Some (Inr (), [], [], [(JStr ''n1'', Some ''cli''), (JStr ''2'', Some ''cli'')])"
proof -
  let ?p = "program [newOption ''-x <n>'', newOption ''-y <n>'']"
  let ?ps = "initialState (singleCommand ?p) (heapOf [[''-xn1'', ''-y'', ''2'']]) 0"
  have c: "cmds ?ps 0 = ?p" by (simp add: initialState_def newArray_def singleCommand_def Let_def)
  have q: "arrays (hp ?ps) (args ?ps) = ''-xn1'' # [''-y'', ''2'']"
    by (simp add: initialState_def newArray_def heapOf_def Let_def)
  have f1: "findOption ?p ''-xn1'' = None"
    by (simp add: option_defs program_defs)
  have f2: "findOption ?p ''-x'' = Some (newOption ''-x <n>'')"
    by (simp add: option_defs program_defs)
  have req: "required (newOption ''-x <n>'')" by (simp add: option_defs)
  from short_cluster_step [of ?ps "''-xn1''" "[''-y'', ''2'']" "CHR ''x''" "''n1''" 0 "newOption ''-x <n>''"]
    q f1 f2 c req
  obtain oname where n: "name (newOption ''-x <n>'') = Inr oname"
    and st: "parseStep 0 ?ps =
       (case emit ?p (''option:'' @ oname) (JStr ''n1'') of
          Inl e \<Rightarrow> Throw e (?ps\<lparr>hp := setArray (args ?ps) [''-y'', ''2''] (hp ?ps), activeVariadicOption := None\<rparr>)
        | Inr this' \<Rightarrow>
            Continue (?ps\<lparr>cmds := (cmds ?ps)(0 := this'),
                         hp := setArray (args ?ps) [''-y'', ''2''] (hp ?ps),
                         activeVariadicOption := None\<rparr>))"
    by auto
  have on: "oname = ''x''" using n by (simp add: option_defs)
  have 3: "\<exists>ps'. parseStep 0 ?ps = Continue ps'
          \<and> getOptionValue (cmds ps' 0) ''x'' = JStr ''n1''
          \<and> arrays (hp ps') (args ps') = [''-y'', ''2'']"
    unfolding st on
    by (simp add: option_defs program_defs resolver_defs setArray_def initialState_def newArray_def Let_def)
  have 4: "observe 0 [''x'', ''y'']
        (parseOptions (singleCommand ?p) 0 (heapOf [[''-xn1'', ''-y'', ''2'']]) 0)
      = Some (Inr (), [], [], [(JStr ''n1'', Some ''cli''), (JStr ''2'', Some ''cli'')])"
    by (simp add: observe_def parser_defs singleCommand_def heapOf_def option_defs program_defs
        resolver_defs)
  show ?thesis using f1 f2 3 4 by simp
qed

text \<open>
  C2 as stated fails where the whole token is a declared flag: with the options \<open>-s\<close> and
  \<open>-sw, --short-word\<close>, the token \<open>-sw\<close> sets \<open>shortWord\<close>; \<open>-s\<close> is not emitted and no \<open>-w\<close>
  is queued.
\<close>

theorem exact_flag_before_cluster_counterexample:
  "findOption (program [newOption ''-s'', newOption ''-sw, --short-word'']) ''-s'' \<noteq> None
   \<and> observe 0 [''s'', ''shortWord'']
        (parseOptions (singleCommand (program [newOption ''-s'', newOption ''-sw, --short-word''])) 0
           (heapOf [[''-sw'']]) 0)
      = Some (Inr (), [], [], [(JUndefined, None), (JBool True, Some ''cli'')])"
  by (simp add: observe_def parser_defs singleCommand_def heapOf_def option_defs program_defs
        resolver_defs)


subsection \<open>The value stored for an event without a value\<close>

text \<open>
  C4. For an event from the command line or the environment whose raw value is null or
  absent: the handler behaves as on the preset when the option has one (the preset is
  substituted as the raw value); and when the value is still null or absent after the
  custom processing, the value stored is true for a boolean option, false for a negated
  one, true for an option with an optional argument, and the empty string otherwise.
\<close>

theorem handleOptionValue_absent_value:
  assumes "isNullish val"
  shows "handleOptionValue option nm val msg src this
           = handleOptionValue option nm
               (if presetArg option \<noteq> JUndefined then presetArg option else val) msg src this
         \<and> presetStage option val
             = (if presetArg option \<noteq> JUndefined then presetArg option else val)
         \<and> (\<forall>v. customProcessing option (presetStage option val) (getOptionValue this nm) msg = Inr v
                  \<and> isNullish v \<longrightarrow>
                handleOptionValue option nm val msg src this
                  = Inr (setOptionValueWithSource nm
                           (if isBoolean option then JBool True
                            else if negate option then JBool False
                            else if optional option then JBool True
                            else JStr [])
                           (Some src) this))"
proof (intro conjI allI impI)
  show p: "presetStage option val
             = (if presetArg option \<noteq> JUndefined then presetArg option else val)"
    using assms by (simp add: presetStage_def)
  have "presetStage option (if presetArg option \<noteq> JUndefined then presetArg option else val)
          = presetStage option val"
    using assms by (simp add: presetStage_def)
  then show "handleOptionValue option nm val msg src this
           = handleOptionValue option nm
               (if presetArg option \<noteq> JUndefined then presetArg option else val) msg src this"
    by (simp only: handleOptionValue_def)
next
  fix v
  assume a: "customProcessing option (presetStage option val) (getOptionValue this nm) msg = Inr v
             \<and> isNullish v"
  have f: "fillInMissing option v
             = (if isBoolean option then JBool True
                else if negate option then JBool False
                else if optional option then JBool True
                else JStr [])"
    using a by (simp add: fillInMissing_def isBoolean_def)
  show "handleOptionValue option nm val msg src this
          = Inr (setOptionValueWithSource nm
                   (if isBoolean option then JBool True
                    else if negate option then JBool False
                    else if optional option then JBool True
                    else JStr [])
                   (Some src) this)"
    using a by (simp add: handleOptionValue_def f Let_def)
qed


text \<open>
  The theorem at \<open>--flag [v]\<close> given without a value (stored: true), and at \<open>--color [c]\<close>
  with the preset \<open>RGB\<close>.
\<close>

theorem handleOptionValue_absent_value_witness:
  "isNullish JNull
   \<and> valueAndSource ''flag''
        (handleOptionValue (newOption ''-f, --flag [v]'') ''flag'' JNull [] ''cli'' (newCommand ''s''))
       = Inr (JBool True, Some ''cli'')
   \<and> valueAndSource ''color''
        (handleOptionValue ((newOption ''--color [c]'')\<lparr>presetArg := JStr ''RGB''\<rparr>) ''color'' JNull []
           ''env'' (newCommand ''s''))
       = Inr (JStr ''RGB'', Some ''env'')"
proof -
  let ?o = "newOption ''-f, --flag [v]''"
  have n: "isNullish JNull" by (simp add: isNullish_def)
  have cp: "customProcessing ?o (presetStage ?o JNull) (getOptionValue (newCommand ''s'') ''flag'') []
              = Inr JNull"
    by (simp add: customProcessing_def presetStage_def option_defs isNullish_def)
  from handleOptionValue_absent_value [OF n, of ?o "''flag''" "[]" "''cli''" "newCommand ''s''"] cp n
  have "handleOptionValue ?o ''flag'' JNull [] ''cli'' (newCommand ''s'')
          = Inr (setOptionValueWithSource ''flag''
                   (if isBoolean ?o then JBool True
                    else if negate ?o then JBool False
                    else if optional ?o then JBool True
                    else JStr [])
                   (Some ''cli'') (newCommand ''s''))"
    by blast
  then have 1: "valueAndSource ''flag''
        (handleOptionValue ?o ''flag'' JNull [] ''cli'' (newCommand ''s''))
       = Inr (JBool True, Some ''cli'')"
    by (simp add: valueAndSource_def option_defs isBoolean_def resolver_defs newCommand_def)
  let ?c = "(newOption ''--color [c]'')\<lparr>presetArg := JStr ''RGB''\<rparr>"
  from handleOptionValue_absent_value [OF n, of ?c "''color''" "[]" "''env''" "newCommand ''s''"]
  have "handleOptionValue ?c ''color'' JNull [] ''env'' (newCommand ''s'')
          = handleOptionValue ?c ''color'' (JStr ''RGB'') [] ''env'' (newCommand ''s'')"
    by simp
  then have 2: "valueAndSource ''color''
        (handleOptionValue ?c ''color'' JNull [] ''env'' (newCommand ''s''))
       = Inr (JStr ''RGB'', Some ''env'')"
    by (simp add: valueAndSource_def option_defs resolver_defs newCommand_def)
  show ?thesis using n 1 2 by simp
qed

subsection \<open>Values from the environment\<close>

text \<open>What the listeners of an event may change.\<close>

lemma handleOptionValue_other_key:
  assumes "handleOptionValue option nm val msg src this = Inr this'" and "nm \<noteq> key"
  shows "getOptionValue this' key = getOptionValue this key
         \<and> getOptionValueSource this' key = getOptionValueSource this key
         \<and> listeners this' = listeners this \<and> options this' = options this"
  using assms
  by (auto simp: handleOptionValue_def Let_def setOptionValueWithSource_def getOptionValue_def
        getOptionValueSource_def split: sum.splits if_splits)

lemma runListeners_other_key:
  assumes "runListeners ls event val this = Inr this'"
    and "\<forall>(ev, l) \<in> set ls. case l of OptionListener option nm valueSource \<Rightarrow> ev = event \<longrightarrow> nm \<noteq> key"
  shows "getOptionValue this' key = getOptionValue this key
         \<and> getOptionValueSource this' key = getOptionValueSource this key
         \<and> listeners this' = listeners this \<and> options this' = options this"
  using assms
proof (induction ls event val this rule: runListeners.induct)
  case (1 event val this)
  then show ?case by simp
next
  case (2 ev option nm valueSource ls event val this)
  show ?case
  proof (cases "ev = event")
    case False
    then show ?thesis using 2 by simp
  next
    case True
    then obtain t where h: "handleOptionValue option nm val (invalidValueMessage option valueSource val)
                valueSource this = Inr t" and r: "runListeners ls event val t = Inr this'"
      using 2(3) by (auto split: sum.splits)
    have "nm \<noteq> key" using 2(4) True by simp
    from handleOptionValue_other_key [OF h this] 2(1) [OF True h r] 2(4)
    show ?thesis by simp
  qed
qed


lemma event_names_differ: "''option:'' @ a \<noteq> ''optionEnv:'' @ b"
  by simp

lemma envStep_keeps_cli:
  assumes step: "parseOptionsEnvStep env option this = Inr this'"
    and reg: "listenersRegistered this"
    and v: "getOptionValue this key \<noteq> JUndefined" "getOptionValueSource this key = Some ''cli''"
  shows "getOptionValue this' key = getOptionValue this key
         \<and> getOptionValueSource this' key = getOptionValueSource this key
         \<and> listeners this' = listeners this \<and> options this' = options this"
proof (cases "this' = this")
  case True
  then show ?thesis by simp
next
  case False
  then obtain optionKey oname val where
    k: "attributeName option = Inr optionKey" and n: "name option = Inr oname"
    and g: "getOptionValue this optionKey = JUndefined
             \<or> getOptionValueSource this optionKey = Some ''default''
             \<or> getOptionValueSource this optionKey = Some ''config''
             \<or> getOptionValueSource this optionKey = Some ''env''"
    and e: "emit this (''optionEnv:'' @ oname) val = Inr this'"
    using step
    by (auto simp: parseOptionsEnvStep_def split: option.splits sum.splits if_splits)
  have ne: "optionKey \<noteq> key" using g v by auto
  have "\<forall>(ev, l) \<in> set (listeners this).
          case l of OptionListener option' nm valueSource \<Rightarrow> ev = ''optionEnv:'' @ oname \<longrightarrow> nm \<noteq> key"
  proof (clarify, goal_cases)
    case (1 ev l)
    show ?case
    proof (cases l)
      case (OptionListener option' nm valueSource)
      from reg 1 OptionListener obtain on' where
        n': "name option' = Inr on'" and a': "attributeName option' = Inr nm"
        and ev: "ev = ''option:'' @ on' \<or> ev = ''optionEnv:'' @ on'"
        by (auto simp: listenersRegistered_def list_all_iff split: sum.splits)
      show ?thesis
      proof (cases "ev = ''optionEnv:'' @ oname")
        case True
        then have "on' = oname" using ev by auto
        then have "attributeName option' = attributeName option"
          using n n' by (simp add: attributeName_def)
        then show ?thesis using OptionListener a' k ne by simp
      next
        case False
        then show ?thesis using OptionListener by simp
      qed
    qed
  qed
  with e show ?thesis unfolding emit_def by (rule runListeners_other_key)
qed

lemma envLoop_keeps_cli:
  assumes "parseOptionsEnvLoop env opts this = Inr this'"
    and "listenersRegistered this"
    and "getOptionValue this key \<noteq> JUndefined" "getOptionValueSource this key = Some ''cli''"
  shows "getOptionValue this' key = getOptionValue this key
         \<and> getOptionValueSource this' key = Some ''cli''"
  using assms
proof (induction opts arbitrary: this)
  case Nil
  then show ?case by simp
next
  case (Cons option rest)
  then obtain t where s: "parseOptionsEnvStep env option this = Inr t"
    and l: "parseOptionsEnvLoop env rest t = Inr this'"
    by (auto split: sum.splits)
  from envStep_keeps_cli [OF s Cons.prems(2,3,4)]
  have k: "getOptionValue t key = getOptionValue this key"
    "getOptionValueSource t key = Some ''cli''" "listeners t = listeners this"
    using Cons.prems(4) by simp_all
  have r: "listenersRegistered t" using Cons.prems(2) k(3) by (simp add: listenersRegistered_def)
  from Cons.IH [OF l r] k Cons.prems(3) show ?case by simp
qed

lemma newCommand_listenersRegistered: "listenersRegistered (newCommand nm)"
  by (simp add: listenersRegistered_def newCommand_def)

lemma addOption_listenersRegistered:
  assumes "addOption option this = Inr this'" and "listenersRegistered this"
  shows "listenersRegistered this'"
proof -
  from assms(1) obtain this1 oname nm this2 where
    r: "registerOption option this = Inr this1" and n: "name option = Inr oname"
    and a: "attributeName option = Inr nm" and d: "storeDefault option nm this1 = Inr this2"
    and t: "this' = this2\<lparr>listeners := listeners this2
                 @ [(''option:'' @ oname, OptionListener option nm ''cli'')]
                 @ (if truthy (envVar option)
                    then [(''optionEnv:'' @ oname, OptionListener option nm ''env'')]
                    else [])\<rparr>"
    by (auto simp: addOption_def split: sum.splits)
  have "listeners this1 = listeners this"
    using r by (auto simp: registerOption_def Let_def split: option.splits)
  moreover have "listeners this2 = listeners this1"
    using d by (auto simp: storeDefault_def setOptionValueWithSource_def Let_def
                  split: option.splits if_splits)
  ultimately show ?thesis
    using assms(2) n a by (simp add: t listenersRegistered_def)
qed

lemma listenersFromAddOption_registered:
  "listenersFromAddOption this \<Longrightarrow> listenersRegistered this"
  unfolding listenersFromAddOption_def listenersRegistered_def list_all_iff
  by (fastforce split: listener.splits sum.splits prod.splits)

lemma setOptionValueWithSource_at:
  "getOptionValue (setOptionValueWithSource key v src this) key = v"
  "getOptionValueSource (setOptionValueWithSource key v src this) key = src"
  "listeners (setOptionValueWithSource key v src this) = listeners this"
  "options (setOptionValueWithSource key v src this) = options this"
  by (simp_all add: setOptionValueWithSource_def getOptionValue_def getOptionValueSource_def)

lemma handleOptionValue_result:
  assumes "handleOptionValue option nm val msg src this = Inr t"
  shows "\<exists>v. customProcessing option (presetStage option val) (getOptionValue this nm) msg = Inr v
             \<and> t = setOptionValueWithSource nm (fillInMissing option v) (Some src) this"
  using assms by (auto simp: handleOptionValue_def Let_def split: sum.splits)

lemma envOrSame_refl: "envOrSame key this this"
  by (simp add: envOrSame_def)

lemma envOrSame_trans: "envOrSame key a b \<Longrightarrow> envOrSame key b c \<Longrightarrow> envOrSame key a c"
  by (auto simp: envOrSame_def)

lemma handleOptionValue_env:
  assumes "handleOptionValue option nm val msg ''env'' this = Inr t"
  shows "envOrSame key this t \<and> (nm = key \<longrightarrow> getOptionValueSource t key = Some ''env'')"
proof -
  from handleOptionValue_result [OF assms] obtain v where
    t: "t = setOptionValueWithSource nm (fillInMissing option v) (Some ''env'') this" by blast
  show ?thesis
  proof (cases "nm = key")
    case True
    then show ?thesis by (simp add: t envOrSame_def setOptionValueWithSource_at)
  next
    case False
    from handleOptionValue_other_key [OF assms False] show ?thesis
      using False by (simp add: envOrSame_def)
  qed
qed

lemma runListeners_env:
  assumes "runListeners ls event val this = Inr this'"
    and "\<forall>(ev, l) \<in> set ls. case l of OptionListener option nm valueSource \<Rightarrow>
           ev = event \<longrightarrow> valueSource = ''env''"
  shows "envOrSame key this this'
         \<and> ((\<exists>option valueSource. (event, OptionListener option key valueSource) \<in> set ls)
              \<longrightarrow> getOptionValueSource this' key = Some ''env'')"
  using assms
proof (induction ls event val this rule: runListeners.induct)
  case (1 event val this)
  then show ?case by (simp add: envOrSame_refl)
next
  case (2 ev option nm valueSource ls event val this)
  show ?case
  proof (cases "ev = event")
    case False
    then show ?thesis using 2 by simp
  next
    case True
    then have src: "valueSource = ''env''" using 2(4) by simp
    from True obtain t where
      h: "handleOptionValue option nm val (invalidValueMessage option valueSource val)
                valueSource this = Inr t" and r: "runListeners ls event val t = Inr this'"
      using 2(3) by (auto split: sum.splits)
    have rest: "\<forall>(ev, l) \<in> set ls. case l of OptionListener option nm valueSource \<Rightarrow>
           ev = event \<longrightarrow> valueSource = ''env''"
      using 2(4) by simp
    from 2(1) [OF True h r rest]
    have ih: "envOrSame key t this'"
      "(\<exists>option valueSource. (event, OptionListener option key valueSource) \<in> set ls)
              \<longrightarrow> getOptionValueSource this' key = Some ''env''" by simp_all
    from h src have "handleOptionValue option nm val (invalidValueMessage option ''env'' val)
                ''env'' this = Inr t" by simp
    from handleOptionValue_env [OF this, where key = key]
    have hd: "envOrSame key this t" "nm = key \<longrightarrow> getOptionValueSource t key = Some ''env''"
      by simp_all
    have a: "envOrSame key this this'" using hd(1) ih(1) by (rule envOrSame_trans)
    have b: "getOptionValueSource this' key = Some ''env''" if "nm = key"
      using hd(2) ih(1) that by (auto simp: envOrSame_def)
    show ?thesis using a b ih(2) True by auto
  qed
qed


lemma listenersFromAddOptionD:
  assumes "listenersFromAddOption this"
    and "(ev, OptionListener option nm valueSource) \<in> set (listeners this)"
  shows "\<exists>oname. name option = Inr oname \<and> attributeName option = Inr nm
           \<and> ((ev = ''option:'' @ oname \<and> valueSource = ''cli'')
               \<or> (ev = ''optionEnv:'' @ oname \<and> valueSource = ''env''))"
proof -
  from assms have "case name option of
                     Inl _ \<Rightarrow> False
                   | Inr oname \<Rightarrow>
                       attributeName option = Inr nm
                       \<and> ((ev = ''option:'' @ oname \<and> valueSource = ''cli'')
                           \<or> (ev = ''optionEnv:'' @ oname \<and> valueSource = ''env''))"
    unfolding listenersFromAddOption_def list_all_iff by fastforce
  then show ?thesis by (cases "name option") simp_all
qed

lemma listenersFromAddOption_cong:
  "listeners t = listeners this \<Longrightarrow> listenersFromAddOption t = listenersFromAddOption this"
  by (simp add: listenersFromAddOption_def)

lemma listenersRegistered_cong:
  "listeners t = listeners this \<Longrightarrow> listenersRegistered t = listenersRegistered this"
  by (simp add: listenersRegistered_def)

lemma envStep_cases:
  assumes "parseOptionsEnvStep env option this = Inr t"
  shows "t = this
         \<or> (\<exists>optionKey oname val. attributeName option = Inr optionKey \<and> name option = Inr oname
              \<and> emit this (''optionEnv:'' @ oname) val = Inr t)"
  using assms
  by (auto simp: parseOptionsEnvStep_def split: option.splits sum.splits if_splits)

lemma listenersFromAddOption_env_event:
  assumes reg: "listenersFromAddOption this"
  shows "\<forall>(ev, l) \<in> set (listeners this). case l of OptionListener option' nm valueSource \<Rightarrow>
           ev = ''optionEnv:'' @ oname \<longrightarrow> valueSource = ''env''"
proof (clarify, goal_cases)
  case (1 ev l)
  show ?case
  proof (cases l)
    case (OptionListener option' nm valueSource)
    from 1 OptionListener
    have "(ev, OptionListener option' nm valueSource) \<in> set (listeners this)" by simp
    from listenersFromAddOptionD [OF reg this] obtain on' where
      "(ev = ''option:'' @ on' \<and> valueSource = ''cli'')
       \<or> (ev = ''optionEnv:'' @ on' \<and> valueSource = ''env'')"
      by blast
    then show ?thesis using OptionListener by auto
  qed
qed

lemma envStep_envOrSame:
  assumes step: "parseOptionsEnvStep env option this = Inr t"
    and reg: "listenersFromAddOption this"
  shows "envOrSame key this t"
proof -
  from envStep_cases [OF step] show ?thesis
  proof
    assume "t = this"
    then show ?thesis by (simp add: envOrSame_refl)
  next
    assume "\<exists>optionKey oname val. attributeName option = Inr optionKey \<and> name option = Inr oname
              \<and> emit this (''optionEnv:'' @ oname) val = Inr t"
    then obtain oname val where e: "runListeners (listeners this) (''optionEnv:'' @ oname) val this = Inr t"
      by (auto simp: emit_def)
    from runListeners_env [OF e listenersFromAddOption_env_event [OF reg]]
    show ?thesis by simp
  qed
qed

lemma envLoop_envOrSame:
  assumes "parseOptionsEnvLoop env opts this = Inr this'"
    and "listenersFromAddOption this"
  shows "envOrSame key this this'"
  using assms
proof (induction opts arbitrary: this)
  case Nil
  then show ?case by (simp add: envOrSame_refl)
next
  case (Cons option rest)
  then obtain t where s: "parseOptionsEnvStep env option this = Inr t"
    and l: "parseOptionsEnvLoop env rest t = Inr this'"
    by (auto split: sum.splits)
  from envStep_envOrSame [OF s Cons.prems(2)] have a: "envOrSame key this t" .
  then have "listenersFromAddOption t"
    using Cons.prems(2) listenersFromAddOption_cong [of t this] by (simp add: envOrSame_def)
  from Cons.IH [OF l this] have "envOrSame key t this'" .
  with a show ?case by (rule envOrSame_trans)
qed

lemma envLoop_append:
  "parseOptionsEnvLoop env (xs @ ys) this =
     (case parseOptionsEnvLoop env xs this of
        Inl e \<Rightarrow> Inl e
      | Inr t \<Rightarrow> parseOptionsEnvLoop env ys t)"
  by (induction xs arbitrary: this) (auto split: sum.splits)

lemma envStep_stores:
  assumes ev: "envVar option = Some ev" "ev \<noteq> []" "env ev = Some s"
    and k: "attributeName option = Inr key" and n: "name option = Inr oname"
    and g: "envMayStore this key"
    and reg: "listenersFromAddOption this"
    and l: "(''optionEnv:'' @ oname, l) \<in> set (listeners this)"
    and step: "parseOptionsEnvStep env option this = Inr t"
  shows "getOptionValueSource t key = Some ''env''"
proof -
  have e: "runListeners (listeners this) (''optionEnv:'' @ oname)
             (if required option \<or> optional option then JStr s else JUndefined) this = Inr t"
    using step ev k n g
    by (auto simp: parseOptionsEnvStep_def envMayStore_def truthy_def emit_def split: if_splits)
  obtain option' nm valueSource where l': "l = OptionListener option' nm valueSource"
    by (cases l)
  from l l' have "(''optionEnv:'' @ oname, OptionListener option' nm valueSource)
                     \<in> set (listeners this)" by simp
  from listenersFromAddOptionD [OF reg this] obtain on' where
    n': "name option' = Inr on'" and a': "attributeName option' = Inr nm"
    and "(''optionEnv:'' @ oname = ''option:'' @ on' \<and> valueSource = ''cli'')
         \<or> (''optionEnv:'' @ oname = ''optionEnv:'' @ on' \<and> valueSource = ''env'')"
    by blast
  then have "on' = oname" by auto
  then have "attributeName option' = attributeName option"
    using n n' by (simp add: attributeName_def)
  then have "nm = key" using a' k by simp
  then have "\<exists>option valueSource.
      (''optionEnv:'' @ oname, OptionListener option key valueSource) \<in> set (listeners this)"
    using l l' by auto
  with runListeners_env [OF e listenersFromAddOption_env_event [OF reg], where key = key]
  show ?thesis by simp
qed

lemma envPass_source:
  assumes ev: "envVar option = Some ev" "ev \<noteq> []" "env ev = Some s"
    and k: "attributeName option = Inr key" and n: "name option = Inr oname"
    and g: "envMayStore this key"
    and reg: "listenersFromAddOption this"
    and mem: "option \<in> set (options this)"
    and l: "(''optionEnv:'' @ oname, l) \<in> set (listeners this)"
    and pass: "parseOptionsEnv env this = Inr this'"
  shows "getOptionValueSource this' key = Some ''env''"
proof -
  from mem obtain pre post where sp: "options this = pre @ option # post"
    by (auto simp: in_set_conv_decomp)
  from pass sp obtain t1 t2 where
    p1: "parseOptionsEnvLoop env pre this = Inr t1"
    and p2: "parseOptionsEnvStep env option t1 = Inr t2"
    and p3: "parseOptionsEnvLoop env post t2 = Inr this'"
    by (auto simp: parseOptionsEnv_def envLoop_append split: sum.splits)
  from envLoop_envOrSame [OF p1 reg] have a: "envOrSame key this t1" .
  then have ls: "listeners t1 = listeners this" by (simp add: envOrSame_def)
  have reg1: "listenersFromAddOption t1"
    using reg listenersFromAddOption_cong [OF ls] by simp
  have g1: "envMayStore t1 key" using a g by (auto simp: envOrSame_def envMayStore_def)
  have l1: "(''optionEnv:'' @ oname, l) \<in> set (listeners t1)" using l ls by simp
  from envStep_stores [OF ev k n g1 reg1 l1 p2]
  have s2: "getOptionValueSource t2 key = Some ''env''" .
  from envStep_envOrSame [OF p2 reg1] have "listeners t2 = listeners t1"
    by (simp add: envOrSame_def)
  then have reg2: "listenersFromAddOption t2"
    using reg1 listenersFromAddOption_cong [of t2 t1] by simp
  from envLoop_envOrSame [OF p3 reg2, where key = key] s2
  show ?thesis by (auto simp: envOrSame_def)
qed


lemma runListeners_filter:
  "runListeners ls event val this
     = runListeners (filter (\<lambda>(ev, l). ev = event) ls) event val this"
  by (induction ls event val this rule: runListeners.induct) (auto split: sum.splits)

lemma envStep_other_key:
  assumes step: "parseOptionsEnvStep env option this = Inr t"
    and reg: "listenersRegistered this"
    and ne: "attributeName option \<noteq> Inr key"
  shows "getOptionValue t key = getOptionValue this key
         \<and> getOptionValueSource t key = getOptionValueSource this key
         \<and> listeners t = listeners this"
proof -
  from envStep_cases [OF step] show ?thesis
  proof
    assume "t = this"
    then show ?thesis by simp
  next
    assume "\<exists>optionKey oname val. attributeName option = Inr optionKey \<and> name option = Inr oname
              \<and> emit this (''optionEnv:'' @ oname) val = Inr t"
    then obtain optionKey oname val where
      k: "attributeName option = Inr optionKey" and n: "name option = Inr oname"
      and e: "runListeners (listeners this) (''optionEnv:'' @ oname) val this = Inr t"
      by (auto simp: emit_def)
    have "\<forall>(ev, l) \<in> set (listeners this).
            case l of OptionListener option' nm valueSource \<Rightarrow> ev = ''optionEnv:'' @ oname \<longrightarrow> nm \<noteq> key"
    proof (clarify, goal_cases)
      case (1 ev l)
      show ?case
      proof (cases l)
        case (OptionListener option' nm valueSource)
        from reg 1 OptionListener obtain on' where
          n': "name option' = Inr on'" and a': "attributeName option' = Inr nm"
          and ev: "ev = ''option:'' @ on' \<or> ev = ''optionEnv:'' @ on'"
          by (auto simp: listenersRegistered_def list_all_iff split: sum.splits)
        show ?thesis
        proof (cases "ev = ''optionEnv:'' @ oname")
          case True
          then have "on' = oname" using ev by auto
          then have "attributeName option' = attributeName option"
            using n n' by (simp add: attributeName_def)
          then show ?thesis using OptionListener a' k ne by simp
        next
          case False
          then show ?thesis using OptionListener by simp
        qed
      qed
    qed
    from runListeners_other_key [OF e this] show ?thesis by simp
  qed
qed

lemma envLoop_other_key:
  assumes "parseOptionsEnvLoop env opts this = Inr this'"
    and "listenersRegistered this"
    and "\<forall>option \<in> set opts. attributeName option \<noteq> Inr key"
  shows "getOptionValue this' key = getOptionValue this key
         \<and> getOptionValueSource this' key = getOptionValueSource this key
         \<and> listeners this' = listeners this"
  using assms
proof (induction opts arbitrary: this)
  case Nil
  then show ?case by simp
next
  case (Cons option rest)
  then obtain t where s: "parseOptionsEnvStep env option this = Inr t"
    and l: "parseOptionsEnvLoop env rest t = Inr this'"
    by (auto split: sum.splits)
  have ne: "attributeName option \<noteq> Inr key" using Cons.prems(3) by simp
  from envStep_other_key [OF s Cons.prems(2) ne]
  have k: "getOptionValue t key = getOptionValue this key"
    "getOptionValueSource t key = getOptionValueSource this key" "listeners t = listeners this"
    by simp_all
  have r: "listenersRegistered t" using Cons.prems(2) listenersRegistered_cong [OF k(3)] by simp
  have "\<forall>option \<in> set rest. attributeName option \<noteq> Inr key" using Cons.prems(3) by simp
  from Cons.IH [OF l r this] k show ?case by simp
qed

lemma envPass_value:
  assumes ev: "envVar option = Some ev" "ev \<noteq> []" "env ev = Some s"
    and k: "attributeName option = Inr key" and n: "name option = Inr oname"
    and g: "envMayStore this key"
    and reg: "listenersRegistered this"
    and sp: "options this = pre @ option # post"
    and others: "\<forall>option' \<in> set (pre @ post). attributeName option' \<noteq> Inr key"
    and one: "filter (\<lambda>(e, l). e = ''optionEnv:'' @ oname) (listeners this)
                = [(''optionEnv:'' @ oname, OptionListener option key ''env'')]"
    and pass: "parseOptionsEnv env this = Inr this'"
    and val: "val = (if required option \<or> optional option then JStr s else JUndefined)"
  shows "\<exists>v. customProcessing option (presetStage option val) (getOptionValue this key)
                (invalidValueMessage option ''env'' val) = Inr v
             \<and> getOptionValue this' key = fillInMissing option v
             \<and> getOptionValueSource this' key = Some ''env''"
proof -
  from pass sp obtain t1 t2 where
    p1: "parseOptionsEnvLoop env pre this = Inr t1"
    and p2: "parseOptionsEnvStep env option t1 = Inr t2"
    and p3: "parseOptionsEnvLoop env post t2 = Inr this'"
    by (auto simp: parseOptionsEnv_def envLoop_append split: sum.splits)
  have o1: "\<forall>option' \<in> set pre. attributeName option' \<noteq> Inr key" using others by simp
  have o3: "\<forall>option' \<in> set post. attributeName option' \<noteq> Inr key" using others by simp
  from envLoop_other_key [OF p1 reg o1]
  have a: "getOptionValue t1 key = getOptionValue this key"
    "getOptionValueSource t1 key = getOptionValueSource this key" "listeners t1 = listeners this"
    by simp_all
  have g1: "envMayStore t1 key" using g a by (simp add: envMayStore_def)
  have "emit t1 (''optionEnv:'' @ oname) val = Inr t2"
    using p2 ev k n g1 val
    by (auto simp: parseOptionsEnvStep_def envMayStore_def truthy_def split: if_splits)
  then have "runListeners (filter (\<lambda>(e, l). e = ''optionEnv:'' @ oname) (listeners t1))
               (''optionEnv:'' @ oname) val t1 = Inr t2"
    unfolding emit_def using runListeners_filter [of "listeners t1" "''optionEnv:'' @ oname" val t1]
    by simp
  then have h: "handleOptionValue option key val (invalidValueMessage option ''env'' val)
                  ''env'' t1 = Inr t2"
    using one a(3) by (simp split: sum.splits)
  from handleOptionValue_result [OF h] obtain v where
    v: "customProcessing option (presetStage option val) (getOptionValue t1 key)
          (invalidValueMessage option ''env'' val) = Inr v"
    and t2: "t2 = setOptionValueWithSource key (fillInMissing option v) (Some ''env'') t1"
    by blast
  have b: "getOptionValue t2 key = fillInMissing option v"
    "getOptionValueSource t2 key = Some ''env''" "listeners t2 = listeners t1"
    by (simp_all add: t2 setOptionValueWithSource_at)
  have reg2: "listenersRegistered t2"
    using reg listenersRegistered_cong [of t2 this] a(3) b(3) by simp
  from envLoop_other_key [OF p3 reg2 o3] b v a(1) show ?thesis by simp
qed

lemma envPass_string:
  assumes "customProcessing option (presetStage option (JStr s)) old msg = Inr v"
    and "parseArg option = None" and "\<not> variadic option"
  shows "fillInMissing option v = JStr s"
proof -
  have "v = JStr s"
    using assms by (simp add: customProcessing_def presetStage_def isNullish_def)
  then show ?thesis by (simp add: fillInMissing_def isNullish_def)
qed

lemma newCommand_listenersFromAddOption: "listenersFromAddOption (newCommand nm)"
  by (simp add: listenersFromAddOption_def newCommand_def)

lemma addOption_listenersFromAddOption:
  assumes "addOption option this = Inr this'" and "listenersFromAddOption this"
  shows "listenersFromAddOption this'"
proof -
  from assms(1) obtain this1 oname nm this2 where
    r: "registerOption option this = Inr this1" and n: "name option = Inr oname"
    and a: "attributeName option = Inr nm" and d: "storeDefault option nm this1 = Inr this2"
    and t: "this' = this2\<lparr>listeners := listeners this2
                 @ [(''option:'' @ oname, OptionListener option nm ''cli'')]
                 @ (if truthy (envVar option)
                    then [(''optionEnv:'' @ oname, OptionListener option nm ''env'')]
                    else [])\<rparr>"
    by (auto simp: addOption_def split: sum.splits)
  have "listeners this1 = listeners this"
    using r by (auto simp: registerOption_def Let_def split: option.splits)
  moreover have "listeners this2 = listeners this1"
    using d by (auto simp: storeDefault_def setOptionValueWithSource_def Let_def
                  split: option.splits if_splits)
  ultimately show ?thesis
    using assms(2) n a by (simp add: t listenersFromAddOption_def)
qed

lemma handleOptionValue_returns:
  assumes "parseArg option = None"
  shows "\<exists>t. handleOptionValue option nm val msg src this = Inr t \<and> listeners t = listeners this"
proof -
  have "\<exists>v. customProcessing option (presetStage option val) (getOptionValue this nm) msg = Inr v"
    using assms by (cases "presetStage option val \<noteq> JNull") (simp_all add: customProcessing_def)
  then show ?thesis
    by (auto simp: handleOptionValue_def Let_def setOptionValueWithSource_def)
qed

lemma runListeners_returns:
  assumes "\<forall>(ev, l) \<in> set ls. case l of OptionListener option nm valueSource \<Rightarrow>
             parseArg option = None"
  shows "\<exists>t. runListeners ls event val this = Inr t \<and> listeners t = listeners this"
  using assms
proof (induction ls event val this rule: runListeners.induct)
  case (1 event val this)
  then show ?case by simp
next
  case (2 ev option nm valueSource ls event val this)
  have p: "parseArg option = None" using 2(3) by simp
  have rest: "\<forall>(ev, l) \<in> set ls. case l of OptionListener option nm valueSource \<Rightarrow>
             parseArg option = None" using 2(3) by simp
  show ?case
  proof (cases "ev = event")
    case False
    from 2(2) [OF False rest] False show ?thesis by simp
  next
    case True
    from handleOptionValue_returns [OF p] obtain t where
      h: "handleOptionValue option nm val (invalidValueMessage option valueSource val)
            valueSource this = Inr t" and l: "listeners t = listeners this"
      by blast
    from 2(1) [OF True h rest] True h l show ?thesis by simp
  qed
qed

lemma envStep_returns:
  assumes "\<forall>(ev, l) \<in> set (listeners this). case l of OptionListener option nm valueSource \<Rightarrow>
             parseArg option = None"
    and "attributeName option = Inr k"
  shows "\<exists>t. parseOptionsEnvStep env option this = Inr t \<and> listeners t = listeners this"
proof -
  from assms(2) obtain oname where n: "name option = Inr oname"
    by (auto simp: attributeName_def split: sum.splits)
  from runListeners_returns [OF assms(1)] assms(2) n show ?thesis
    by (auto simp: parseOptionsEnvStep_def emit_def split: option.splits)
qed

lemma envLoop_returns:
  assumes "\<forall>(ev, l) \<in> set (listeners this). case l of OptionListener option nm valueSource \<Rightarrow>
             parseArg option = None"
    and "\<forall>option \<in> set opts. \<exists>k. attributeName option = Inr k"
  shows "\<exists>t. parseOptionsEnvLoop env opts this = Inr t"
  using assms
proof (induction opts arbitrary: this)
  case Nil
  then show ?case by simp
next
  case (Cons option rest)
  from Cons.prems(2) obtain k where n: "attributeName option = Inr k" by auto
  from envStep_returns [OF Cons.prems(1) n] obtain t where
    s: "parseOptionsEnvStep env option this = Inr t" and l: "listeners t = listeners this"
    by blast
  have 1: "\<forall>(ev, l) \<in> set (listeners t). case l of OptionListener option nm valueSource \<Rightarrow>
             parseArg option = None" using Cons.prems(1) l by simp
  have 2: "\<forall>option \<in> set rest. \<exists>k. attributeName option = Inr k" using Cons.prems(2) by simp
  from Cons.IH [OF 1 2] s show ?case by simp
qed


text \<open>
  C3, as the code has it. For an option bound to an environment variable that is present,
  the pass emits the env event exactly when the current value of the option is undefined or
  its source is \<open>default\<close>, \<open>config\<close> or \<open>env\<close>. Consequently, with the listeners that
  \<open>addOption\<close> registers, a defined value whose source is \<open>cli\<close> is the same after the whole
  pass; and when \<open>addOption\<close> has registered a listener for the env event of the option
  (the option was bound to its variable before it was added), a value that is undefined or
  has the source \<open>default\<close>, \<open>config\<close> or \<open>env\<close> has the source \<open>env\<close> after the pass, and, if
  the option is not variadic and is the only one with its attribute and event, the value
  that the handler of the option computes from the env string: the env string itself, for
  an option that takes a value and has no custom parser. The pass returns when no option
  has a custom parser.
\<close>

theorem env_pass_precedence:
  assumes "envVar option = Some ev" and "ev \<noteq> []" and "env ev = Some s"
    and "attributeName option = Inr key" and "name option = Inr oname"
  shows "parseOptionsEnvStep env option this =
           (if getOptionValue this key = JUndefined
               \<or> getOptionValueSource this key = Some ''default''
               \<or> getOptionValueSource this key = Some ''config''
               \<or> getOptionValueSource this key = Some ''env''
            then emit this (''optionEnv:'' @ oname)
                   (if required option \<or> optional option then JStr s else JUndefined)
            else Inr this)
         \<and> (\<forall>this' k. listenersRegistered this \<and> parseOptionsEnv env this = Inr this'
                \<and> getOptionValue this k \<noteq> JUndefined \<and> getOptionValueSource this k = Some ''cli''
              \<longrightarrow> getOptionValue this' k = getOptionValue this k
                  \<and> getOptionValueSource this' k = Some ''cli'')
         \<and> (\<forall>this' l. listenersFromAddOption this \<and> option \<in> set (options this)
                \<and> (''optionEnv:'' @ oname, l) \<in> set (listeners this)
                \<and> envMayStore this key \<and> parseOptionsEnv env this = Inr this'
              \<longrightarrow> getOptionValueSource this' key = Some ''env'')
         \<and> (\<forall>this' pre post. \<not> variadic option
                \<and> listenersRegistered this \<and> options this = pre @ option # post
                \<and> (\<forall>option' \<in> set (pre @ post). attributeName option' \<noteq> Inr key)
                \<and> filter (\<lambda>(e, l). e = ''optionEnv:'' @ oname) (listeners this)
                    = [(''optionEnv:'' @ oname, OptionListener option key ''env'')]
                \<and> envMayStore this key \<and> parseOptionsEnv env this = Inr this'
              \<longrightarrow> (\<exists>v. customProcessing option
                         (presetStage option
                            (if required option \<or> optional option then JStr s else JUndefined))
                         (getOptionValue this key)
                         (invalidValueMessage option ''env''
                            (if required option \<or> optional option then JStr s else JUndefined))
                         = Inr v
                       \<and> getOptionValue this' key = fillInMissing option v
                       \<and> getOptionValueSource this' key = Some ''env'')
                  \<and> (parseArg option = None \<and> (required option \<or> optional option)
                      \<longrightarrow> getOptionValue this' key = JStr s))
         \<and> ((\<forall>(e, l) \<in> set (listeners this).
                 case l of OptionListener option' nm valueSource \<Rightarrow> parseArg option' = None)
              \<and> (\<forall>option' \<in> set (options this). \<exists>k. attributeName option' = Inr k)
              \<longrightarrow> (\<exists>this'. parseOptionsEnv env this = Inr this'))"
proof (intro conjI allI impI)
  show "parseOptionsEnvStep env option this =
           (if getOptionValue this key = JUndefined
               \<or> getOptionValueSource this key = Some ''default''
               \<or> getOptionValueSource this key = Some ''config''
               \<or> getOptionValueSource this key = Some ''env''
            then emit this (''optionEnv:'' @ oname)
                   (if required option \<or> optional option then JStr s else JUndefined)
            else Inr this)"
    using assms by (simp add: parseOptionsEnvStep_def truthy_def)
next
  fix this' k
  assume a: "listenersRegistered this \<and> parseOptionsEnv env this = Inr this'
                \<and> getOptionValue this k \<noteq> JUndefined \<and> getOptionValueSource this k = Some ''cli''"
  then have "parseOptionsEnvLoop env (options this) this = Inr this'"
    by (simp add: parseOptionsEnv_def)
  from envLoop_keeps_cli [OF this] a
  show "getOptionValue this' k = getOptionValue this k" "getOptionValueSource this' k = Some ''cli''"
    by simp_all
next
  fix this' l
  assume a: "listenersFromAddOption this \<and> option \<in> set (options this)
                \<and> (''optionEnv:'' @ oname, l) \<in> set (listeners this)
                \<and> envMayStore this key \<and> parseOptionsEnv env this = Inr this'"
  show "getOptionValueSource this' key = Some ''env''"
    using envPass_source [where option = option and ev = ev and env = env and s = s
        and key = key and oname = oname and this = this and l = l and this' = this'] assms a
    by simp
next
  fix this' pre post
  assume a: "\<not> variadic option
                \<and> listenersRegistered this \<and> options this = pre @ option # post
                \<and> (\<forall>option' \<in> set (pre @ post). attributeName option' \<noteq> Inr key)
                \<and> filter (\<lambda>(e, l). e = ''optionEnv:'' @ oname) (listeners this)
                    = [(''optionEnv:'' @ oname, OptionListener option key ''env'')]
                \<and> envMayStore this key \<and> parseOptionsEnv env this = Inr this'"
  show "\<exists>v. customProcessing option
                         (presetStage option
                            (if required option \<or> optional option then JStr s else JUndefined))
                         (getOptionValue this key)
                         (invalidValueMessage option ''env''
                            (if required option \<or> optional option then JStr s else JUndefined))
                         = Inr v
                       \<and> getOptionValue this' key = fillInMissing option v
                       \<and> getOptionValueSource this' key = Some ''env''"
    using envPass_value [where option = option and ev = ev and env = env and s = s
        and key = key and oname = oname and this = this and pre = pre and post = post
        and this' = this', OF _ _ _ _ _ _ _ _ _ _ _ refl] assms a
    by blast
next
  fix this' pre post
  assume a: "\<not> variadic option
                \<and> listenersRegistered this \<and> options this = pre @ option # post
                \<and> (\<forall>option' \<in> set (pre @ post). attributeName option' \<noteq> Inr key)
                \<and> filter (\<lambda>(e, l). e = ''optionEnv:'' @ oname) (listeners this)
                    = [(''optionEnv:'' @ oname, OptionListener option key ''env'')]
                \<and> envMayStore this key \<and> parseOptionsEnv env this = Inr this'"
    and b: "parseArg option = None \<and> (required option \<or> optional option)"
  from envPass_value [where option = option and ev = ev and env = env and s = s
        and key = key and oname = oname and this = this and pre = pre and post = post
        and this' = this', OF _ _ _ _ _ _ _ _ _ _ _ refl] assms a b
  obtain w where
    "customProcessing option (presetStage option (JStr s)) (getOptionValue this key)
       (invalidValueMessage option ''env'' (JStr s)) = Inr w"
    and "getOptionValue this' key = fillInMissing option w"
    by auto
  then show "getOptionValue this' key = JStr s"
    using envPass_string a b by simp
next
  assume a: "(\<forall>(e, l) \<in> set (listeners this).
                 case l of OptionListener option' nm valueSource \<Rightarrow> parseArg option' = None)
              \<and> (\<forall>option' \<in> set (options this). \<exists>k. attributeName option' = Inr k)"
  then show "\<exists>this'. parseOptionsEnv env this = Inr this'"
    unfolding parseOptionsEnv_def using envLoop_returns [of this "options this" env] by blast
qed

text \<open>
  The theorem at an option \<open>--port\<close> with the default 80 and \<open>PORT=9000\<close>: after the pass the
  value is 9000 with source \<open>env\<close>; after \<open>--port 1234\<close> the pass leaves value and source.
\<close>

theorem env_pass_precedence_witness:
  "(let po = (newOption ''-p, --port <n>'')\<lparr>envVar := Some ''PORT'', defaultValue := JNum 80\<rparr>;
        env = [''PORT'' \<mapsto> ''9000''];
        cli = setOptionValueWithSource ''port'' (JStr ''1234'') (Some ''cli'') (program [po])
    in envVar po = Some ''PORT'' \<and> attributeName po = Inr ''port'' \<and> name po = Inr ''port''
       \<and> \<not> variadic po \<and> parseArg po = None
       \<and> options (program [po]) = [po]
       \<and> listeners (program [po])
            = [(''option:port'', OptionListener po ''port'' ''cli''),
               (''optionEnv:port'', OptionListener po ''port'' ''env'')]
       \<and> valueAndSource ''port'' (Inr (program [po])) = Inr (JNum 80, Some ''default'')
       \<and> valueAndSource ''port'' (parseOptionsEnvStep env po (program [po]))
           = Inr (JStr ''9000'', Some ''env'')
       \<and> valueAndSource ''port'' (parseOptionsEnv env (program [po]))
           = Inr (JStr ''9000'', Some ''env'')
       \<and> valueAndSource ''port'' (parseOptionsEnv env cli) = Inr (JStr ''1234'', Some ''cli''))"
proof -
  define po where "po = (newOption ''-p, --port <n>'')\<lparr>envVar := Some ''PORT'', defaultValue := JNum 80\<rparr>"
  define env where "env = [''PORT'' \<mapsto> ''9000'']"
  define prog where "prog = program [po]"
  define cli where "cli = setOptionValueWithSource ''port'' (JStr ''1234'') (Some ''cli'') prog"
  have e: "envVar po = Some ''PORT''" "''PORT'' \<noteq> []" "env ''PORT'' = Some ''9000''"
    by (simp_all add: po_def env_def option_defs)
  have a: "attributeName po = Inr ''port''" and n: "name po = Inr ''port''"
    by (simp_all add: po_def option_defs)
  have tk: "required po" "parseArg po = None" "\<not> variadic po"
    by (simp_all add: po_def option_defs)
  have os: "options prog = [po]"
    by (simp add: prog_def po_def option_defs program_defs)
  have ls: "listeners prog = [(''option:port'', OptionListener po ''port'' ''cli''),
                              (''optionEnv:port'', OptionListener po ''port'' ''env'')]"
    by (simp add: prog_def po_def option_defs program_defs)
  have p: "getOptionValue prog ''port'' = JNum 80" "getOptionValueSource prog ''port'' = Some ''default''"
    by (simp_all add: prog_def po_def option_defs program_defs resolver_defs)
  have may: "envMayStore prog ''port''" using p by (simp add: envMayStore_def)
  have reg: "listenersFromAddOption prog" "listenersRegistered prog"
    using a n by (simp_all add: listenersFromAddOption_def listenersRegistered_def ls)
  have one: "filter (\<lambda>(e, l). e = ''optionEnv:'' @ ''port'') (listeners prog)
               = [(''optionEnv:'' @ ''port'', OptionListener po ''port'' ''env'')]"
    by (simp add: ls)
  have lc: "listeners cli = listeners prog" "options cli = options prog"
    by (simp_all add: cli_def setOptionValueWithSource_def)
  have rc: "listenersRegistered cli"
    using reg(2) lc(1) by (simp add: listenersRegistered_def)
  have vc: "getOptionValue cli ''port'' = JStr ''1234''" "getOptionValueSource cli ''port'' = Some ''cli''"
    by (simp_all add: cli_def resolver_defs)
  have pa: "\<forall>(e, l) \<in> set (listeners prog).
              case l of OptionListener option' nm valueSource \<Rightarrow> parseArg option' = None"
    using tk(2) by (simp add: ls)
  have at: "\<forall>option' \<in> set (options prog). \<exists>k. attributeName option' = Inr k"
    using a by (simp add: os)
  note th = env_pass_precedence [where env = env and ev = "''PORT''" and option = po
      and s = "''9000''" and key = "''port''" and oname = "''port''", OF e a n]
  note thA = th [THEN conjunct1]
  note thB = th [THEN conjunct2, THEN conjunct1, rule_format]
  note thC = th [THEN conjunct2, THEN conjunct2, THEN conjunct1, rule_format]
  note thD = th [THEN conjunct2, THEN conjunct2, THEN conjunct2, THEN conjunct1, rule_format]
  note thE = th [THEN conjunct2, THEN conjunct2, THEN conjunct2, THEN conjunct2, rule_format]
  have "parseOptionsEnvStep env po prog = emit prog (''optionEnv:'' @ ''port'') (JStr ''9000'')"
    using thA [of prog] p tk(1) by simp
  also have "\<dots> = handleOptionValue po ''port'' (JStr ''9000'')
                     (invalidValueMessage po ''env'' (JStr ''9000'')) ''env'' prog"
    by (simp add: emit_def ls split: sum.splits)
  also have "\<dots> = Inr (setOptionValueWithSource ''port'' (JStr ''9000'') (Some ''env'') prog)"
    using tk by (simp add: handleOptionValue_def customProcessing_def presetStage_def
          fillInMissing_def isNullish_def)
  finally have 1: "valueAndSource ''port'' (parseOptionsEnvStep env po prog)
           = Inr (JStr ''9000'', Some ''env'')"
    by (simp add: valueAndSource_def setOptionValueWithSource_at)
  from thE [of prog] pa at obtain t where t: "parseOptionsEnv env prog = Inr t" by blast
  have os': "options prog = [] @ po # []" using os by simp
  have ot: "\<forall>option' \<in> set ([] @ []). attributeName option' \<noteq> Inr ''port''" by simp
  from thD [where this = prog and pre = "[]" and post = "[]" and this' = t]
    tk(3) reg(2) os' ot one may t
  have d: "(\<exists>v. getOptionValue t ''port'' = fillInMissing po v
                \<and> getOptionValueSource t ''port'' = Some ''env'')
           \<and> (parseArg po = None \<and> (required po \<or> optional po)
                \<longrightarrow> getOptionValue t ''port'' = JStr ''9000'')"
    by blast
  then have tv: "getOptionValue t ''port'' = JStr ''9000''"
    "getOptionValueSource t ''port'' = Some ''env''"
    using tk by blast+
  then have 2: "valueAndSource ''port'' (parseOptionsEnv env prog) = Inr (JStr ''9000'', Some ''env'')"
    using t by (simp add: valueAndSource_def)
  from thC [where this = prog and this' = t and l = "OptionListener po ''port'' ''env''"]
    reg(1) os may t
  have "getOptionValueSource t ''port'' = Some ''env''" by (simp add: ls)
  have pa': "\<forall>(e, l) \<in> set (listeners cli).
              case l of OptionListener option' nm valueSource \<Rightarrow> parseArg option' = None"
    using pa lc by simp
  have at': "\<forall>option' \<in> set (options cli). \<exists>k. attributeName option' = Inr k"
    using at lc by simp
  from thE [of cli] pa' at' obtain u where u: "parseOptionsEnv env cli = Inr u" by blast
  from thB [of cli u "''port''"] rc u vc
  have "getOptionValue u ''port'' = getOptionValue cli ''port''"
    "getOptionValueSource u ''port'' = Some ''cli''" by simp_all
  then have 3: "valueAndSource ''port'' (parseOptionsEnv env cli) = Inr (JStr ''1234'', Some ''cli'')"
    using u vc by (simp add: valueAndSource_def)
  have 0: "valueAndSource ''port'' (Inr prog) = Inr (JNum 80, Some ''default'')"
    using p by (simp add: valueAndSource_def)
  show ?thesis
    using e a n tk os ls 0 1 2 3
    unfolding Let_def po_def [symmetric] env_def [symmetric] prog_def [symmetric] cli_def [symmetric]
    by simp
qed


text \<open>
  C3 as stated fails in two ways. A value that client code has set with \<open>setOptionValue\<close> has
  the source undefined, and the pass emits no event for it (an event would store 9000). And
  an option bound to its variable by \<open>env()\<close> only after \<open>addOption\<close> has run is in the array
  \<open>options\<close> with the variable, but \<open>addOption\<close> registered no listener for the env event: the
  event is emitted to no listener, and the default 80 stays.
\<close>

theorem env_not_stored_counterexample:
  "(let po = (newOption ''-p, --port <n>'')\<lparr>envVar := Some ''PORT''\<rparr>;
        client = setOptionValue ''port'' (JStr ''1'') (program [po]);
        pd = (newOption ''-p, --port <n>'')\<lparr>defaultValue := JNum 80\<rparr>;
        late = (program [pd])\<lparr>options := [pd\<lparr>envVar := Some ''PORT''\<rparr>]\<rparr>
    in envEventExpected_spec client po
       \<and> valueAndSource ''port'' (parseOptionsEnv [''PORT'' \<mapsto> ''9000''] client) = Inr (JStr ''1'', None)
       \<and> valueAndSource ''port'' (emit client ''optionEnv:port'' (JStr ''9000''))
           = Inr (JStr ''9000'', Some ''env'')
       \<and> envEventExpected_spec late (pd\<lparr>envVar := Some ''PORT''\<rparr>)
       \<and> listeners late = [(''option:port'', OptionListener pd ''port'' ''cli'')]
       \<and> valueAndSource ''port'' (Inr late) = Inr (JNum 80, Some ''default'')
       \<and> valueAndSource ''port'' (parseOptionsEnv [''PORT'' \<mapsto> ''9000''] late)
           = Inr (JNum 80, Some ''default''))"
  by (simp add: envEventExpected_spec_def attributeKey_def valueAndSource_def setOptionValue_def
        parseOptionsEnv_def parseOptionsEnvStep_def option_defs program_defs resolver_defs Let_def)


subsection \<open>Conflicting options\<close>

lemma wellNamed_key: "wellNamed option \<Longrightarrow> attributeName option = Inr (attributeKey option)"
  by (auto simp: wellNamed_def attributeKey_def split: sum.splits)

lemma definedNonDefault_filter:
  "list_all wellNamed os \<Longrightarrow>
   definedNonDefaultOptions this os =
     Inr (filter (\<lambda>option. getOptionValue this (attributeKey option) \<noteq> JUndefined
                     \<and> getOptionValueSource this (attributeKey option) \<noteq> Some ''default'') os)"
  by (induction os) (auto simp: wellNamed_key Let_def)

lemma findConflicting_find:
  "list_all wellNamed ds \<Longrightarrow>
   findConflictingAndDefined option ds =
     Inr (find (\<lambda>d. attributeKey d \<in> set (conflictsWith option)) ds)"
  by (induction ds) (auto simp: wellNamed_key)

lemma findByKey_find:
  "list_all wellNamed os \<Longrightarrow>
   findByKey wanted key os = Inr (find (\<lambda>t. negate t = wanted \<and> key = attributeKey t) os)"
  by (induction os) (auto simp: wellNamed_key)

lemma findBest_wellNamed:
  assumes "list_all wellNamed (options this)" and "wellNamed option"
  shows "\<exists>best. findBestOptionFromValue this option = Inr best \<and> wellNamed best"
proof -
  have w: "wellNamed t" if "find P (options this) = Some t" for P t
    using that assms(1) by (auto simp: find_Some_iff list_all_length)
  show ?thesis
    using assms(2) w
    by (auto simp: findBestOptionFromValue_def wellNamed_key findByKey_find [OF assms(1)] Let_def
          split: option.splits)
qed

lemma getErrorMessage_ok:
  assumes "list_all wellNamed (options this)" and "wellNamed option"
  shows "\<exists>m. getErrorMessage this option = Inr m"
proof -
  from findBest_wellNamed [OF assms] obtain best where
    "findBestOptionFromValue this option = Inr best" "wellNamed best" by blast
  then show ?thesis by (simp add: getErrorMessage_def wellNamed_key)
qed

lemma conflictingOption_code:
  assumes "list_all wellNamed (options this)" and "wellNamed option" and "wellNamed conflicting"
  shows "\<exists>m. conflictingOption this option conflicting
               = CommanderError 1 ''commander.conflictingOption'' m"
proof -
  from getErrorMessage_ok [OF assms(1,2)] obtain m1 where "getErrorMessage this option = Inr m1"
    by blast
  moreover from getErrorMessage_ok [OF assms(1,3)] obtain m2 where
    "getErrorMessage this conflicting = Inr m2" by blast
  ultimately show ?thesis by (simp add: conflictingOption_def)
qed

lemma conflictLoop_iff:
  assumes "list_all wellNamed (options this)" and "list_all wellNamed ds" and "list_all wellNamed os"
  shows "case conflictLoop this ds os of
           Inl e \<Rightarrow> (\<exists>m. e = CommanderError 1 ''commander.conflictingOption'' m)
                    \<and> list_ex (\<lambda>option. list_ex (\<lambda>d. attributeKey d \<in> set (conflictsWith option)) ds) os
         | Inr _ \<Rightarrow> \<not> list_ex (\<lambda>option. list_ex (\<lambda>d. attributeKey d \<in> set (conflictsWith option)) ds) os"
  using assms(3)
proof (induction os)
  case Nil
  then show ?case by simp
next
  case (Cons option rest)
  show ?case
  proof (cases "find (\<lambda>d. attributeKey d \<in> set (conflictsWith option)) ds")
    case None
    then have "\<not> list_ex (\<lambda>d. attributeKey d \<in> set (conflictsWith option)) ds"
      by (auto simp: find_None_iff list_ex_iff)
    then show ?thesis
      using Cons None by (auto simp: findConflicting_find [OF assms(2)] split: sum.splits)
  next
    case (Some d)
    then have ex: "list_ex (\<lambda>d. attributeKey d \<in> set (conflictsWith option)) ds"
      and "d \<in> set ds"
      by (auto simp: find_Some_iff list_ex_iff)
    then have "wellNamed d" using assms(2) by (auto simp: list_all_iff)
    from conflictingOption_code [OF assms(1) _ this, of option] Cons.prems
    obtain m where "conflictingOption this option d = CommanderError 1 ''commander.conflictingOption'' m"
      by auto
    then show ?thesis using Some ex by (simp add: findConflicting_find [OF assms(2)])
  qed
qed


text \<open>
  C5, as the code has it. The conflict check of a command considers exactly the options
  whose current value is defined and whose value source is not \<open>default\<close>; when the
  \<open>conflictsWith\<close> list of a considered option contains the attribute name of a considered
  option, the check leaves with the error \<open>commander.conflictingOption\<close> (exit code 1), and
  otherwise it returns. (The options are assumed to have well-formed names, so that
  \<open>attributeName\<close> does not throw.)
\<close>

theorem conflicting_options_raise:
  assumes "list_all wellNamed (options this)"
  shows "case checkForConflictingLocalOptions this of
           Inl e \<Rightarrow> (\<exists>m. e = CommanderError 1 ''commander.conflictingOption'' m)
                    \<and> conflictAmong (considered this)
         | Inr _ \<Rightarrow> \<not> conflictAmong (considered this)"
proof -
  let ?ds = "considered this"
  let ?os = "filter (\<lambda>option. conflictsWith option \<noteq> []) ?ds"
  have d: "definedNonDefaultOptions this (options this) = Inr ?ds"
    using assms by (simp add: definedNonDefault_filter considered_def)
  have wd: "list_all wellNamed ?ds" using assms by (auto simp: considered_def list_all_iff)
  then have wo: "list_all wellNamed ?os" by (auto simp: list_all_iff)
  have eq: "list_ex (\<lambda>option. list_ex (\<lambda>d. attributeKey d \<in> set (conflictsWith option)) ?ds) ?os
            = conflictAmong ?ds"
    by (auto simp: conflictAmong_def list_ex_iff)
  from conflictLoop_iff [OF assms wd wo] show ?thesis
    unfolding checkForConflictingLocalOptions_def d eq by simp
qed


text \<open>
  The theorem at \<open>--silent\<close> (which conflicts with \<open>verbose\<close>) and \<open>--verbose\<close>, both given on
  the command line.
\<close>

theorem conflicting_options_raise_witness:
  "list_all wellNamed
     (options (afterParse [(newOption ''--silent'')\<lparr>conflictsWith := [''verbose'']\<rparr>, newOption ''--verbose'']
                 [''--silent'', ''--verbose'']))
   \<and> conflictAmong
        (considered (afterParse [(newOption ''--silent'')\<lparr>conflictsWith := [''verbose'']\<rparr>, newOption ''--verbose'']
                       [''--silent'', ''--verbose'']))
   \<and> (\<exists>m. checkForConflictingLocalOptions
              (afterParse [(newOption ''--silent'')\<lparr>conflictsWith := [''verbose'']\<rparr>, newOption ''--verbose'']
                 [''--silent'', ''--verbose''])
            = Inl (CommanderError 1 ''commander.conflictingOption'' m))"
proof -
  define c where "c = afterParse [(newOption ''--silent'')\<lparr>conflictsWith := [''verbose'']\<rparr>, newOption ''--verbose'']
                 [''--silent'', ''--verbose'']"
  have c: "c = (program [(newOption ''--silent'')\<lparr>conflictsWith := [''verbose'']\<rparr>, newOption ''--verbose''])
                 \<lparr>optionValues := (\<lambda>_. JUndefined)(''silent'' := JBool True, ''verbose'' := JBool True),
                  optionValueSources := (\<lambda>_. None)(''silent'' := Some ''cli'', ''verbose'' := Some ''cli'')\<rparr>"
    by (simp add: c_def afterParse_def parser_defs singleCommand_def heapOf_def option_defs
          program_defs resolver_defs)
  have w: "list_all wellNamed (options c)"
    by (simp add: c wellNamed_def option_defs program_defs)
  have a: "conflictAmong (considered c)"
    by (simp add: c conflictAmong_def considered_def attributeKey_def option_defs program_defs
          resolver_defs)
  from conflicting_options_raise [OF w] a
  have "\<exists>m. checkForConflictingLocalOptions c = Inl (CommanderError 1 ''commander.conflictingOption'' m)"
    by (cases "checkForConflictingLocalOptions c") auto
  with w a show ?thesis unfolding c_def by simp
qed


text \<open>
  C5 as stated fails: with only \<open>--silent\<close> given, the source of \<open>verbose\<close> is undefined, which
  is not \<open>default\<close>, so the specification's set contains \<open>--verbose\<close> and a conflict is
  expected; the code, which leaves out options without a value, raises nothing.
\<close>

theorem unset_option_not_considered_counterexample:
  "conflict_spec
     (afterParse [(newOption ''--silent'')\<lparr>conflictsWith := [''verbose'']\<rparr>, newOption ''--verbose'']
        [''--silent''])
   \<and> checkForConflictingLocalOptions
        (afterParse [(newOption ''--silent'')\<lparr>conflictsWith := [''verbose'']\<rparr>, newOption ''--verbose'']
           [''--silent''])
       = Inr ()"
proof -
  define c where "c = afterParse [(newOption ''--silent'')\<lparr>conflictsWith := [''verbose'']\<rparr>, newOption ''--verbose'']
                 [''--silent'']"
  have c: "c = (program [(newOption ''--silent'')\<lparr>conflictsWith := [''verbose'']\<rparr>, newOption ''--verbose''])
                 \<lparr>optionValues := (\<lambda>_. JUndefined)(''silent'' := JBool True),
                  optionValueSources := (\<lambda>_. None)(''silent'' := Some ''cli'')\<rparr>"
    by (simp add: c_def afterParse_def parser_defs singleCommand_def heapOf_def option_defs
          program_defs resolver_defs)
  have 1: "conflict_spec c"
    by (simp add: c conflict_spec_def considered_spec_def attributeKey_def option_defs program_defs
          resolver_defs)
  have 2: "checkForConflictingLocalOptions c = Inr ()"
    by (simp add: c checkForConflictingLocalOptions_def option_defs program_defs resolver_defs)
  from 1 2 show ?thesis unfolding c_def by simp
qed

subsection \<open>The order of the hooks\<close>






lemmas hook_defs = hooked_def hook_def allowedValues_def newCommand_def hookList_def
  chainOrCallHooks_def chainOrCallSubCommandHook_def declarationOrder_spec_def


text \<open>A command without a hook for the event has the slot \<open>null\<close>, and the loop over it throws.\<close>

lemma null_slot_throws:
  "chainOrCallHooks (singleCommand (newCommand ''s'')) 0 ''preAction''
     = Some (Inl (TypeError ''object null is not iterable''))"
proof -
  have "getCommandAndAncestors (singleCommand (newCommand ''s'')) 0 = Some [0]"
    by (subst getCommandAndAncestors.simps) (simp add: singleCommand_def newCommand_def)
  then show ?thesis
    by (simp add: chainOrCallHooks_def singleCommand_def newCommand_def)
qed











subsection \<open>Aliases\<close>

lemma lastCommand_last:
  "lastCommand st this = (if commands (st this) = [] then None else Some (last (commands (st this))))"
  by (cases "commands (st this)" rule: rev_cases) (simp_all add: lastCommand_def)


text \<open>
  C9. A call \<open>alias(a)\<close> that does not throw adds \<open>a\<close> at the end of the aliases of the
  target and changes nothing else: the target is the most recently added subcommand when
  that is an executable subcommand, and the command itself otherwise. The call throws
  exactly when \<open>a\<close> is the name of the target or names a command of the parent.
\<close>

theorem alias_registers_on_target:
  "(case alias_command st this (Some a) of
      Inl e \<Rightarrow>
        a = cmd_name (st (aliasTarget st this))
        \<or> (\<exists>p m. parent (st this) = Some p \<and> findCommand st p (Some a) = Some m)
    | Inr r \<Rightarrow>
        r = Chained (st(aliasTarget st this :=
                         (st (aliasTarget st this))
                           \<lparr>aliases := aliases (st (aliasTarget st this)) @ [a]\<rparr>))
        \<and> a \<noteq> cmd_name (st (aliasTarget st this))
        \<and> (\<forall>p. parent (st this) = Some p \<longrightarrow> findCommand st p (Some a) = None))"
  by (auto simp: alias_command_def aliasTarget_def lastCommand_last Let_def
        split: option.splits if_splits)


text \<open>
  The theorem at \<open>pm\<close>: an alias given to \<open>pm\<close> goes to the executable subcommand \<open>start\<close>
  and not to \<open>pm\<close>; an alias given to \<open>install\<close> goes to \<open>install\<close>.
\<close>

theorem alias_registers_on_target_witness:
  "aliasTarget pmStore 0 = 2 \<and> aliasTarget pmStore 1 = 1
   \<and> aliasesAfter 2 (alias_command pmStore 0 (Some ''s'')) = Some [''s'']
   \<and> aliasesAfter 0 (alias_command pmStore 0 (Some ''s'')) = Some []
   \<and> aliasesAfter 1 (alias_command pmStore 1 (Some ''i'')) = Some [''i'']
   \<and> (\<exists>e. alias_command pmStore 0 (Some ''start'') = Inl e)"
proof -
  have t: "aliasTarget pmStore 0 = 2" "aliasTarget pmStore 1 = 1"
    by (simp_all add: aliasTarget_def pmStore_def newCommand_def)
  have n: "cmd_name (pmStore 2) = ''start''" "cmd_name (pmStore 1) = ''install''"
    "parent (pmStore 0) = None" "parent (pmStore 1) = Some 0"
    "findCommand pmStore 0 (Some ''i'') = None"
    by (simp_all add: pmStore_def newCommand_def findCommand_def)
  have 1: "alias_command pmStore 0 (Some ''s'')
             = Inr (Chained (pmStore(2 := (pmStore 2)\<lparr>aliases := aliases (pmStore 2) @ [''s'']\<rparr>)))"
    using alias_registers_on_target [where st = pmStore and this = 0 and a = "''s''"] t n
    by (cases "alias_command pmStore 0 (Some ''s'')") auto
  have 2: "alias_command pmStore 1 (Some ''i'')
             = Inr (Chained (pmStore(1 := (pmStore 1)\<lparr>aliases := aliases (pmStore 1) @ [''i'']\<rparr>)))"
    using alias_registers_on_target [where st = pmStore and this = 1 and a = "''i''"] t n
    by (cases "alias_command pmStore 1 (Some ''i'')") auto
  have 3: "\<exists>e. alias_command pmStore 0 (Some ''start'') = Inl e"
    using alias_registers_on_target [where st = pmStore and this = 0 and a = "''start''"] t n
    by (cases "alias_command pmStore 0 (Some ''start'')") auto
  have a: "aliases (pmStore 2) = []" "aliases (pmStore 0) = []" "aliases (pmStore 1) = []"
    by (simp_all add: pmStore_def newCommand_def)
  have c1: "aliasesAfter 2 (alias_command pmStore 0 (Some ''s'')) = Some [''s'']"
    and c2: "aliasesAfter 0 (alias_command pmStore 0 (Some ''s'')) = Some []"
    unfolding 1 by (simp_all add: aliasesAfter_def a)
  have c3: "aliasesAfter 1 (alias_command pmStore 1 (Some ''i'')) = Some [''i'']"
    unfolding 2 by (simp add: aliasesAfter_def a del: One_nat_def)
  show ?thesis using t 3 c1 c2 c3 by (simp del: One_nat_def)
qed

subsection \<open>The inspector port\<close>

lemma matchInspectEq_append:
  assumes "opt \<in> {''--inspect'', ''--inspect-brk'', ''--inspect-port''}"
  shows "matchInspectEq (opt @ ''='' @ v) = Some (opt, v)"
    and "take 9 (opt @ ''='' @ v) = ''--inspect''"
    and "opt @ ''='' @ v \<noteq> ''--inspect''" and "opt @ ''='' @ v \<noteq> ''--inspect-brk''"
  using assms by (auto simp: matchInspectEq_def)

lemma matchInspectEq_Some:
  assumes "matchInspectEq arg = Some (opt, rest)"
  shows "opt \<in> {''--inspect'', ''--inspect-brk'', ''--inspect-port''} \<and> arg = opt @ ''='' @ rest"
proof -
  have split: "arg = s @ drop n arg" if "take n arg = s" for n s
    using that append_take_drop_id [of n arg] by simp
  show ?thesis
    using assms
    by (auto simp: matchInspectEq_def split: if_splits dest: split)
qed

lemma allDigits_no_colon: "allDigits p \<Longrightarrow> CHR '':'' \<notin> set p"
  by (auto simp: allDigits_def list_all_iff isDigit_def)

lemma split_host_port:
  assumes "CHR '':'' \<notin> set host"
  shows "takeWhile (\<lambda>c. c \<noteq> CHR '':'') (host @ '':'' @ port) = host"
    and "dropWhile (\<lambda>c. c \<noteq> CHR '':'') (host @ '':'' @ port) = CHR '':'' # port"
  using assms by (induction host) auto

lemma matchInspect_port:
  assumes "opt \<in> {''--inspect'', ''--inspect-brk'', ''--inspect-port''}" and "allDigits port"
  shows "matchInspect (opt @ ''='' @ port) = (opt, ''127.0.0.1'', port)"
  using assms matchInspectEq_append [OF assms(1), of port] allDigits_no_colon [OF assms(2)]
  by (simp add: matchInspect_def allDigits_def)

lemma matchInspect_host:
  assumes "opt \<in> {''--inspect'', ''--inspect-brk'', ''--inspect-port''}"
    and "host \<noteq> []" "CHR '':'' \<notin> set host" "\<not> allDigits host"
  shows "matchInspect (opt @ ''='' @ host) = (opt, host, ''9229'')"
  using assms matchInspectEq_append [OF assms(1), of host]
  by (simp add: matchInspect_def)

lemma matchInspect_host_port:
  assumes "opt \<in> {''--inspect'', ''--inspect-brk'', ''--inspect-port''}"
    and "host \<noteq> []" "CHR '':'' \<notin> set host" "allDigits port"
  shows "matchInspect (opt @ ''='' @ host @ '':'' @ port) = (opt, host, port)"
  using assms matchInspectEq_append [OF assms(1), of "host @ '':'' @ port"]
    split_host_port [OF assms(3), of port]
  by (simp add: matchInspect_def)

lemma opt_nonempty:
  "opt \<in> {''--inspect'', ''--inspect-brk'', ''--inspect-port''} \<Longrightarrow> opt \<noteq> []"
  by auto


lemma parseNat_snoc: "parseNat (xs @ [c]) = 10 * parseNat xs + ((of_char c :: nat) - 48)"
  by (simp add: parseNat_def)

lemma of_char_digitChar: "d < 10 \<Longrightarrow> (of_char (digitChar d) :: nat) = 48 + d"
proof -
  assume "d < 10"
  then have "d \<in> {0, 1, 2, 3, 4, 5, 6, 7, 8, 9}" by auto
  then show ?thesis by (auto simp: digitChar_def)
qed

lemma parseNat_showNat: "parseNat (showNat n) = n"
proof (induction n rule: showNat.induct)
  case (1 n)
  show ?case
  proof (cases "n < 10")
    case True
    then show ?thesis
      using of_char_digitChar [OF True]
      by (subst showNat.simps) (simp add: parseNat_def)
  next
    case False
    have m: "n mod 10 < 10" by simp
    show ?thesis
      using False 1 [OF False] of_char_digitChar [OF m]
      by (subst showNat.simps) (simp add: parseNat_snoc)
  qed
qed

lemma showNat_9230: "showNat 9230 = ''9230''"
  by (simp add: showNat.simps digitChar_def)

lemma parseNat_9229: "parseNat ''9229'' = 9229"
  by (simp add: parseNat_def)

lemma incrementArg_bare:
  "incrementArg big ''--inspect'' = ''--inspect=127.0.0.1:9230''"
  "incrementArg big ''--inspect-brk'' = ''--inspect-brk=127.0.0.1:9230''"
  by (simp_all add: incrementArg_def matchInspect_def portPlusOne_def parseNat_9229 showNat_9230)


lemma incrementArg_matched:
  assumes "take 9 arg = ''--inspect''" and "matchInspect arg = (opt, host, port)" and "opt \<noteq> []"
    and "parseNat port < 2 ^ 53"
  shows "incrementArg big arg
           = (if port = ''0'' then arg else opt @ ''='' @ host @ '':'' @ showNat (parseNat port + 1))"
  using assms by (simp add: incrementArg_def portPlusOne_def)

lemma incrementArg_changed:
  assumes "incrementArg big arg \<noteq> arg"
  shows "arg \<in> {''--inspect'', ''--inspect-brk''}
         \<or> (\<exists>opt v. opt \<in> {''--inspect'', ''--inspect-brk'', ''--inspect-port''}
                \<and> arg = opt @ ''='' @ v \<and> v \<noteq> []
                \<and> (CHR '':'' \<notin> set v
                    \<or> (\<exists>h p. v = h @ '':'' @ p \<and> h \<noteq> [] \<and> CHR '':'' \<notin> set h \<and> allDigits p)))"
proof (cases "arg = ''--inspect'' \<or> arg = ''--inspect-brk''")
  case True
  then show ?thesis by auto
next
  case False
  obtain dOpt dHost dPort where m: "matchInspect arg = (dOpt, dHost, dPort)"
    by (cases "matchInspect arg") auto
  have ne: "dOpt \<noteq> []" using assms m by (auto simp: incrementArg_def split: if_splits)
  then obtain opt rest where e: "matchInspectEq arg = Some (opt, rest)"
    using m False by (auto simp: matchInspect_def split: option.splits)
  from matchInspectEq_Some [OF e] have o: "opt \<in> {''--inspect'', ''--inspect-brk'', ''--inspect-port''}"
    and a: "arg = opt @ ''='' @ rest" by auto
  show ?thesis
  proof (cases "rest \<noteq> [] \<and> CHR '':'' \<notin> set rest")
    case True
    then show ?thesis using o a by blast
  next
    case nc: False
    let ?h = "takeWhile (\<lambda>c. c \<noteq> CHR '':'') rest"
    from m False e nc ne obtain c p where
      d: "dropWhile (\<lambda>c. c \<noteq> CHR '':'') rest = c # p" and h: "?h \<noteq> []" and p: "allDigits p"
      by (auto simp: matchInspect_def Let_def split: list.splits if_splits)
    have "c = CHR '':''" using hd_dropWhile [of "\<lambda>c. c \<noteq> CHR '':''" rest] d by auto
    then have r: "rest = ?h @ '':'' @ p"
      using takeWhile_dropWhile_id [of "\<lambda>c. c \<noteq> CHR '':''" rest] d by simp
    have hc: "CHR '':'' \<notin> set ?h" by (auto dest: set_takeWhileD)
    have "rest \<noteq> []" using h by auto
    then show ?thesis using o a r h hc p by blast
  qed
qed


text \<open>
  C7, as the code has it. \<open>incrementNodeInspectorPort\<close> rewrites each token on its own. The
  bare tokens \<open>--inspect\<close> and \<open>--inspect-brk\<close> become the option with host \<open>127.0.0.1\<close> and
  port 9230. For \<open>--inspect\<close>, \<open>--inspect-brk\<close> and \<open>--inspect-port\<close> followed by \<open>=port\<close>,
  \<open>=host\<close> or \<open>=host:port\<close> (the port below \<open>2^53\<close>), the result is the same option with the
  host kept (or \<open>127.0.0.1\<close>) and the port plus one (9230 when none is given); a port that
  is literally \<open>0\<close> leaves the token as it is. A token that the function changes has one of
  these shapes, so every other token, the bare \<open>--inspect-port\<close> among them, is returned
  unchanged. The port printed is the decimal rendering of the number: reading it back
  gives the number.
\<close>

theorem inspector_port_rewrite:
  "incrementNodeInspectorPort big argv = map (incrementArg big) argv
   \<and> incrementArg big ''--inspect'' = ''--inspect=127.0.0.1:9230''
   \<and> incrementArg big ''--inspect-brk'' = ''--inspect-brk=127.0.0.1:9230''
   \<and> (\<forall>opt host port.
         opt \<in> {''--inspect'', ''--inspect-brk'', ''--inspect-port''}
         \<and> allDigits port \<and> parseNat port < 2 ^ 53 \<and> host \<noteq> [] \<and> CHR '':'' \<notin> set host \<longrightarrow>
           incrementArg big (opt @ ''='' @ port)
             = (if port = ''0'' then opt @ ''=0''
                else opt @ ''=127.0.0.1:'' @ showNat (parseNat port + 1))
           \<and> (\<not> allDigits host \<longrightarrow>
                incrementArg big (opt @ ''='' @ host) = opt @ ''='' @ host @ '':9230'')
           \<and> incrementArg big (opt @ ''='' @ host @ '':'' @ port)
               = (if port = ''0'' then opt @ ''='' @ host @ '':0''
                  else opt @ ''='' @ host @ '':'' @ showNat (parseNat port + 1)))
   \<and> (\<forall>arg. incrementArg big arg \<noteq> arg \<longrightarrow>
         arg \<in> {''--inspect'', ''--inspect-brk''}
         \<or> (\<exists>opt v. opt \<in> {''--inspect'', ''--inspect-brk'', ''--inspect-port''}
                \<and> arg = opt @ ''='' @ v \<and> v \<noteq> []
                \<and> (CHR '':'' \<notin> set v
                    \<or> (\<exists>h p. v = h @ '':'' @ p \<and> h \<noteq> [] \<and> CHR '':'' \<notin> set h \<and> allDigits p))))
   \<and> parseNat (showNat n) = n"
proof (intro conjI allI impI)
  show "incrementNodeInspectorPort big argv = map (incrementArg big) argv"
    by (simp add: incrementNodeInspectorPort_def)
  show "incrementArg big ''--inspect'' = ''--inspect=127.0.0.1:9230''"
    "incrementArg big ''--inspect-brk'' = ''--inspect-brk=127.0.0.1:9230''"
    by (rule incrementArg_bare)+
  show "parseNat (showNat n) = n" by (rule parseNat_showNat)
next
  fix arg assume "incrementArg big arg \<noteq> arg"
  then show "arg \<in> {''--inspect'', ''--inspect-brk''}
         \<or> (\<exists>opt v. opt \<in> {''--inspect'', ''--inspect-brk'', ''--inspect-port''}
                \<and> arg = opt @ ''='' @ v \<and> v \<noteq> []
                \<and> (CHR '':'' \<notin> set v
                    \<or> (\<exists>h p. v = h @ '':'' @ p \<and> h \<noteq> [] \<and> CHR '':'' \<notin> set h \<and> allDigits p)))"
    by (rule incrementArg_changed)
next
  fix opt host port
  assume a: "opt \<in> {''--inspect'', ''--inspect-brk'', ''--inspect-port''}
         \<and> allDigits port \<and> parseNat port < 2 ^ 53 \<and> host \<noteq> [] \<and> CHR '':'' \<notin> set host"
  then have o: "opt \<in> {''--inspect'', ''--inspect-brk'', ''--inspect-port''}" by simp
  have pb: "parseNat port < 2 ^ 53" and pd: "allDigits port" using a by simp_all
  have hp: "host \<noteq> []" "CHR '':'' \<notin> set host" using a by simp_all
  have p9: "parseNat ''9229'' < 2 ^ 53" by (simp add: parseNat_9229)
  note t9 = matchInspectEq_append(2) [OF o]
  note m1 = matchInspect_port [OF o pd]
  note m3 = matchInspect_host_port [OF o hp pd]
  show "incrementArg big (opt @ ''='' @ port)
             = (if port = ''0'' then opt @ ''=0''
                else opt @ ''=127.0.0.1:'' @ showNat (parseNat port + 1))"
    using incrementArg_matched [OF t9 m1 opt_nonempty [OF o] pb] by simp
  show "incrementArg big (opt @ ''='' @ host @ '':'' @ port)
               = (if port = ''0'' then opt @ ''='' @ host @ '':0''
                  else opt @ ''='' @ host @ '':'' @ showNat (parseNat port + 1))"
    using incrementArg_matched [OF t9 m3 opt_nonempty [OF o] pb] by simp
  show "incrementArg big (opt @ ''='' @ host) = opt @ ''='' @ host @ '':9230''"
    if nd: "\<not> allDigits host"
    using incrementArg_matched [OF t9 matchInspect_host [OF o hp nd] opt_nonempty [OF o] p9]
    by (simp add: parseNat_9229 showNat_9230)
qed


text \<open>The theorem on an argument list with the shapes side by side.\<close>

theorem inspector_port_rewrite_witness:
  "incrementNodeInspectorPort unrendered
     [''--inspect=localhost:1234'', ''--inspect-brk=0'', ''--inspect-port=80'', ''run'', ''--inspect'']
   = [''--inspect=localhost:1235'', ''--inspect-brk=0'', ''--inspect-port=127.0.0.1:81'', ''run'',
      ''--inspect=127.0.0.1:9230'']"
proof -
  note th = inspector_port_rewrite [of unrendered _ 0]
  have d: "allDigits ''1234''" "allDigits ''0''" "allDigits ''80''"
    by (simp_all add: allDigits_def isDigit_def)
  have n: "parseNat ''1234'' = 1234" "parseNat ''0'' = 0" "parseNat ''80'' = 80"
    by (simp_all add: parseNat_def)
  have s: "showNat 1235 = ''1235''" "showNat 81 = ''81''"
    by (simp_all add: showNat.simps digitChar_def)
  have 1: "incrementArg unrendered (''--inspect'' @ ''='' @ ''localhost'' @ '':'' @ ''1234'')
             = ''--inspect=localhost:1235''"
    using th [THEN conjunct2, THEN conjunct2, THEN conjunct2, THEN conjunct1,
              rule_format, of "''--inspect''" "''1234''" "''localhost''"] d n s
    by simp
  have 2: "incrementArg unrendered (''--inspect-brk'' @ ''='' @ ''0'') = ''--inspect-brk=0''"
    using th [THEN conjunct2, THEN conjunct2, THEN conjunct2, THEN conjunct1,
              rule_format, of "''--inspect-brk''" "''0''" "''h''"] d n
    by simp
  have 3: "incrementArg unrendered (''--inspect-port'' @ ''='' @ ''80'') = ''--inspect-port=127.0.0.1:81''"
    using th [THEN conjunct2, THEN conjunct2, THEN conjunct2, THEN conjunct1,
              rule_format, of "''--inspect-port''" "''80''" "''h''"] d n s
    by simp
  have 4: "incrementArg unrendered ''run'' = ''run''"
    by (simp add: incrementArg_def)
  have 5: "incrementArg unrendered ''--inspect'' = ''--inspect=127.0.0.1:9230''"
    using th by simp
  show ?thesis
    using 1 2 3 4 5 th [THEN conjunct1, of "[''--inspect=localhost:1234'', ''--inspect-brk=0'',
        ''--inspect-port=80'', ''run'', ''--inspect'']"]
    by simp
qed


text \<open>
  C7 as stated fails at the bare token \<open>--inspect-port\<close>, which the first pattern of the
  source (\<open>--inspect(-brk)?\<close>) does not match: it is returned unchanged.
\<close>

theorem bare_inspect_port_counterexample:
  "incrementNodeInspectorPort unrendered [''--inspect-port''] = [''--inspect-port'']"
  by (simp add: incrementNodeInspectorPort_def incrementArg_def matchInspect_def matchInspectEq_def)

subsection \<open>The walk over the ancestors\<close>

text \<open>
  On a store whose parent references are well founded (a rank decreases towards the root),
  the walk over the ancestors ends.
\<close>

lemma getCommandAndAncestors_total:
  assumes "\<And>c p. parent (st c) = Some p \<Longrightarrow> rank p < (rank c :: nat)"
  shows "\<exists>chain. getCommandAndAncestors st c = Some chain \<and> hd chain = c \<and> chain \<noteq> []"
proof (induction "rank c" arbitrary: c rule: less_induct)
  case less
  show ?case
  proof (cases "parent (st c)")
    case None
    then show ?thesis by (subst getCommandAndAncestors.simps) simp
  next
    case (Some p)
    then have "rank p < rank c" by (rule assms)
    then obtain rest where "getCommandAndAncestors st p = Some rest" using less by blast
    then show ?thesis using Some by (subst getCommandAndAncestors.simps) simp
  qed
qed

text \<open>The check over the chain stops at the first command with a conflict.\<close>

lemma checkConflictsEach_ok:
  "checkConflictsEach cs = Inr () \<longleftrightarrow> (\<forall>c \<in> set cs. checkForConflictingLocalOptions c = Inr ())"
  by (induction cs) (auto split: sum.splits)

lemma checkConflictsEach_error:
  "checkConflictsEach cs = Inl e \<Longrightarrow> \<exists>c \<in> set cs. checkForConflictingLocalOptions c = Inl e"
  by (induction cs) (auto split: sum.splits)

end
